theory Spec2Isabelle
  imports Complex_Main "HOL-Library.AList"
begin

section \<open>Conventions of the embedding\<close>

text \<open>
  The engine is JavaScript. Its numbers are modelled as exact reals: \<open>Math.floor\<close> is
  \<^term>\<open>floor\<close>, \<open>Math.round\<close> is \<^term>\<open>round\<close> (both round a half upwards), and the
  remainder operator \<open>%\<close> is written out with truncation towards zero. Rounding error of
  IEEE doubles and the value \<open>Infinity\<close> are outside the model, and so is a spatial hash
  of cell size 0, in which the source divides by zero. The only value \<open>NaN\<close> of the model
  is a result of \<open>getTimerFrames\<close>.

  Objects are compared by reference in the source; an object reference is a natural
  number here, and the fields of the objects live in a store indexed by references.

  A \<open>TypeError\<close> that the source can raise (reading a property of \<open>undefined\<close> or
  \<open>null\<close>) is a value of the result type.
\<close>

type_synonym obj = nat

datatype error = TypeError

section \<open>The spatial hash (module spatialhash)\<close>

type_synonym cell = "int \<times> int"
type_synonym hitbox = "real \<times> real \<times> real \<times> real"

text \<open>
  \<open>hash\<close> is the plain object from the key \<open>"x,y"\<close> to the array of objects of that cell,
  \<open>objects\<close> the map from an object to the array of its cell keys, \<open>hitboxes\<close> the map
  from an object to \<open>[x, y, width, height]\<close>. \<open>console\<close> collects the messages that
  \<open>console.error\<close> was called with.
\<close>

record spatial_hash =
  size_cell :: real
  hash :: "cell \<rightharpoonup> obj list"
  objects :: "obj \<rightharpoonup> cell list"
  hitboxes :: "obj \<rightharpoonup> hitbox"
  console :: "string list"

definition SpatialHash :: "real \<Rightarrow> spatial_hash" where
  "SpatialHash sz =
     \<lparr>size_cell = sz, hash = Map.empty, objects = Map.empty, hitboxes = Map.empty,
      console = []\<rparr>"

definition cellCoord :: "real \<Rightarrow> real \<Rightarrow> real \<Rightarrow> cell" where
  "cellCoord sz x y = (\<lfloor>x / sz\<rfloor>, \<lfloor>y / sz\<rfloor>)"

text \<open>
  The two nested \<open>for\<close> loops of \<open>add\<close> and \<open>query\<close> visit the cells from
  \<open>cellCoord(x, y)\<close> to \<open>cellCoord(x + width, y + height)\<close>, the outer loop over the
  first coordinate.
\<close>

definition coveredCells :: "real \<Rightarrow> real \<Rightarrow> real \<Rightarrow> real \<Rightarrow> real \<Rightarrow> cell list" where
  "coveredCells sz x y width height =
     (let start = cellCoord sz x y;
          end = cellCoord sz (x + width) (y + height)
      in concat (map (\<lambda>cx. map (\<lambda>cy. (cx, cy)) [snd start..snd end]) [fst start..fst end]))"

definition cellObjects :: "spatial_hash \<Rightarrow> cell \<Rightarrow> obj list" where
  "cellObjects sh key = (case hash sh key of None \<Rightarrow> [] | Some os \<Rightarrow> os)"

definition objectCells :: "spatial_hash \<Rightarrow> obj \<Rightarrow> cell list" where
  "objectCells sh object = (case objects sh object of None \<Rightarrow> [] | Some ks \<Rightarrow> ks)"

text \<open>The body of the inner loop of \<open>add\<close>.\<close>

definition addToCell :: "obj \<Rightarrow> spatial_hash \<Rightarrow> cell \<Rightarrow> spatial_hash" where
  "addToCell object sh key =
     sh\<lparr>hash := (hash sh)(key \<mapsto> cellObjects sh key @ [object]),
        objects := (objects sh)(object \<mapsto> objectCells sh object @ [key])\<rparr>"

definition SpatialHash_add ::
  "spatial_hash \<Rightarrow> obj \<Rightarrow> real \<Rightarrow> real \<Rightarrow> real \<Rightarrow> real \<Rightarrow> spatial_hash" where
  "SpatialHash_add sh object x y width height =
     foldl (addToCell object)
       (sh\<lparr>hitboxes := (hitboxes sh)(object \<mapsto> (x, y, width, height))\<rparr>)
       (coveredCells (size_cell sh) x y width height)"

text \<open>
  \<open>list.splice(list.indexOf(object), 1)\<close>: the first occurrence is removed; when there is
  none, \<open>indexOf\<close> is \<open>-1\<close> and \<open>splice(-1, 1)\<close> removes the last element.
\<close>

definition spliceIndexOf :: "obj \<Rightarrow> obj list \<Rightarrow> obj list" where
  "spliceIndexOf object os = (if object \<in> set os then remove1 object os else butlast os)"

text \<open>The body of the loop of \<open>remove\<close>; \<open>this.hash[key]\<close> may be \<open>undefined\<close>.\<close>

definition removeFromCell :: "obj \<Rightarrow> spatial_hash \<Rightarrow> cell \<Rightarrow> error + spatial_hash" where
  "removeFromCell object sh key =
     (case hash sh key of
        None \<Rightarrow> Inl TypeError
      | Some os \<Rightarrow>
          (let os' = spliceIndexOf object os
           in if length os' = 0 then Inr (sh\<lparr>hash := (hash sh)(key := None)\<rparr>)
              else Inr (sh\<lparr>hash := (hash sh)(key \<mapsto> os')\<rparr>)))"

fun removeFromCells :: "obj \<Rightarrow> spatial_hash \<Rightarrow> cell list \<Rightarrow> error + spatial_hash" where
  "removeFromCells object sh [] = Inr sh"
| "removeFromCells object sh (key # keys) =
     (case removeFromCell object sh key of
        Inl e \<Rightarrow> Inl e
      | Inr sh' \<Rightarrow> removeFromCells object sh' keys)"

text \<open>
  \<open>remove\<close>. For an object without an entry in \<open>objects\<close> the message is built from
  \<open>object.constructor.name\<close> before it is logged. The argument \<open>constructorName\<close> is what
  that expression gives for the object, as the template literal prints it; it is \<open>None\<close>
  when the evaluation raises a \<open>TypeError\<close>, as for an object without a constructor
  (\<open>Object.create(null)\<close>), whose \<open>constructor\<close> is \<open>undefined\<close>.
\<close>

definition notInSpatialHash :: "string \<Rightarrow> string" where
  "notInSpatialHash name = ''object '' @ name @ '' is not in this spatial hash!''"

definition SpatialHash_remove :: "string option \<Rightarrow> spatial_hash \<Rightarrow> obj \<Rightarrow> error + spatial_hash" where
  "SpatialHash_remove constructorName sh object =
     (case objects sh object of
        None \<Rightarrow>
          (case constructorName of
             None \<Rightarrow> Inl TypeError
           | Some name \<Rightarrow> Inr (sh\<lparr>console := console sh @ [notInSpatialHash name]\<rparr>))
      | Some keys \<Rightarrow>
          (case removeFromCells object sh keys of
             Inl e \<Rightarrow> Inl e
           | Inr sh' \<Rightarrow>
               Inr (sh'\<lparr>objects := (objects sh')(object := None),
                        hitboxes := (hitboxes sh')(object := None)\<rparr>)))"

definition getHitbox :: "spatial_hash \<Rightarrow> obj \<Rightarrow> hitbox option" where
  "getHitbox sh object = hitboxes sh object"

definition SpatialHash_update ::
  "string option \<Rightarrow> spatial_hash \<Rightarrow> obj \<Rightarrow> real \<Rightarrow> real \<Rightarrow> real \<Rightarrow> real
     \<Rightarrow> error + spatial_hash" where
  "SpatialHash_update constructorName sh object x y width height =
     (case SpatialHash_remove constructorName sh object of
        Inl e \<Rightarrow> Inl e
      | Inr sh' \<Rightarrow> Inr (SpatialHash_add sh' object x y width height))"

definition SpatialHash_query ::
  "spatial_hash \<Rightarrow> real \<Rightarrow> real \<Rightarrow> real \<Rightarrow> real \<Rightarrow> obj list" where
  "SpatialHash_query sh x y width height =
     concat (map (cellObjects sh) (coveredCells (size_cell sh) x y width height))"

text \<open>
  Two rectangles \<open>(x, y, width, height)\<close> intersect when they share a point, their
  boundaries included.
\<close>

definition rectsIntersect :: "hitbox \<Rightarrow> hitbox \<Rightarrow> bool" where
  "rectsIntersect r q =
     (case r of (x1, y1, w1, h1) \<Rightarrow> case q of (x2, y2, w2, h2) \<Rightarrow>
        max x1 x2 \<le> min (x1 + w1) (x2 + w2) \<and> max y1 y2 \<le> min (y1 + h1) (y2 + h2))"

text \<open>The cells that \<open>add\<close> enters an object into when given the hitbox \<open>r\<close>.\<close>

definition hitboxCells :: "real \<Rightarrow> hitbox \<Rightarrow> cell list" where
  "hitboxCells sz r = (case r of (x, y, w, h) \<Rightarrow> coveredCells sz x y w h)"

text \<open>
  The three maps agree: an object is in the array of a cell as often as the cell is in
  the array of the object, and the cells of an object are those of its recorded hitbox.
\<close>

definition consistent :: "spatial_hash \<Rightarrow> bool" where
  "consistent sh \<longleftrightarrow>
     (\<forall>object key. count_list (cellObjects sh key) object = count_list (objectCells sh object) key)
   \<and> (\<forall>object. objectCells sh object =
         (case hitboxes sh object of None \<Rightarrow> [] | Some r \<Rightarrow> hitboxCells (size_cell sh) r))"

text \<open>
  The hashes that the operations build from a new one, where \<open>add\<close> is called only for
  an object without an entry in \<open>objects\<close>; for an object that the hash holds, \<open>update\<close>
  removes first. \<open>add\<close> itself has no such guard.
\<close>

inductive reachable :: "spatial_hash \<Rightarrow> bool" where
  reachable_new: "reachable (SpatialHash sz)"
| reachable_add:
    "reachable sh \<Longrightarrow> objects sh object = None \<Longrightarrow>
     reachable (SpatialHash_add sh object x y width height)"
| reachable_remove:
    "reachable sh \<Longrightarrow> SpatialHash_remove constructorName sh object = Inr sh' \<Longrightarrow>
     reachable sh'"
| reachable_update:
    "reachable sh \<Longrightarrow>
     SpatialHash_update constructorName sh object x y width height = Inr sh' \<Longrightarrow>
     reachable sh'"

section \<open>Numbers and bounding boxes (module utils)\<close>

definition sign :: "real \<Rightarrow> real" where
  "sign x = (if x = 0 then 0 else if x > 0 then 1 else - 1)"

text \<open>
  A position is the array \<open>[x, y]\<close> or \<open>[x, y, z]\<close>; \<open>pz\<close> is \<open>None\<close> where \<open>position[2]\<close>
  is \<open>undefined\<close>. An AABB is an array of four numbers \<open>[minX, minY, maxX, maxY]\<close> or of
  six \<open>[minX, minY, minZ, maxX, maxY, maxZ]\<close>; \<open>aabb_at a i\<close> is \<open>a[i]\<close>. Arrays of another
  length, for which \<open>aabb2D\<close> throws, are excluded by the type.
\<close>

record point =
  px :: real
  py :: real
  pz :: "real option"

datatype aabb =
    Aabb2D real real real real
  | Aabb3D real real real real real real

fun aabb_elems :: "aabb \<Rightarrow> real list" where
  "aabb_elems (Aabb2D a0 a1 a2 a3) = [a0, a1, a2, a3]"
| "aabb_elems (Aabb3D a0 a1 a2 a3 a4 a5) = [a0, a1, a2, a3, a4, a5]"

definition aabb_at :: "aabb \<Rightarrow> nat \<Rightarrow> real" where
  "aabb_at a i = aabb_elems a ! i"

definition aabb_length :: "aabb \<Rightarrow> nat" where
  "aabb_length a = length (aabb_elems a)"

definition checkAabbIntersection2D :: "aabb \<Rightarrow> aabb \<Rightarrow> point \<Rightarrow> point \<Rightarrow> bool" where
  "checkAabbIntersection2D aabb1 aabb2 p1 p2 =
     (let x1 = px p1; y1 = py p1; x2 = px p2; y2 = py p2
      in aabb_at aabb1 0 + x1 \<le> aabb_at aabb2 2 + x2 \<and>
         aabb_at aabb1 1 + y1 \<le> aabb_at aabb2 3 + y2 \<and>
         aabb_at aabb1 2 + x1 \<ge> aabb_at aabb2 0 + x2 \<and>
         aabb_at aabb1 3 + y1 \<ge> aabb_at aabb2 1 + y2)"

text \<open>The 3D test is reached only with both third coordinates defined.\<close>

definition checkAabbIntersection3D ::
  "aabb \<Rightarrow> aabb \<Rightarrow> real \<times> real \<times> real \<Rightarrow> real \<times> real \<times> real \<Rightarrow> bool" where
  "checkAabbIntersection3D aabb1 aabb2 p1 p2 =
     (case p1 of (x1, y1, z1) \<Rightarrow> case p2 of (x2, y2, z2) \<Rightarrow>
        aabb_at aabb1 0 + x1 \<le> aabb_at aabb2 3 + x2 \<and>
        aabb_at aabb1 1 + y1 \<le> aabb_at aabb2 4 + y2 \<and>
        aabb_at aabb1 2 + z1 \<le> aabb_at aabb2 5 + z2 \<and>
        aabb_at aabb1 3 + x1 \<ge> aabb_at aabb2 0 + x2 \<and>
        aabb_at aabb1 4 + y1 \<ge> aabb_at aabb2 1 + y2 \<and>
        aabb_at aabb1 5 + z1 \<ge> aabb_at aabb2 2 + z2)"

definition aabb2D :: "aabb \<Rightarrow> aabb" where
  "aabb2D a =
     (if aabb_length a = 6 then Aabb2D (aabb_at a 0) (aabb_at a 1) (aabb_at a 3) (aabb_at a 4)
      else a)"

definition checkAabbIntersection :: "aabb \<Rightarrow> aabb \<Rightarrow> point \<Rightarrow> point \<Rightarrow> bool" where
  "checkAabbIntersection aabb1 aabb2 p1 p2 =
     (if aabb_length aabb1 = 6 \<and> aabb_length aabb2 = 6 \<and> pz p1 \<noteq> None \<and> pz p2 \<noteq> None
      then checkAabbIntersection3D aabb1 aabb2
             (px p1, py p1, the (pz p1)) (px p2, py p2, the (pz p2))
      else checkAabbIntersection2D (aabb2D aabb1) (aabb2D aabb2) p1 p2)"

text \<open>\<open>aabbToXywh\<close> on the four-element result of \<open>aabb2D\<close>.\<close>

definition aabbToXywh :: "aabb \<Rightarrow> point \<Rightarrow> hitbox" where
  "aabbToXywh a position =
     (aabb_at a 0 + px position, aabb_at a 1 + py position,
      aabb_at a 2 - aabb_at a 0, aabb_at a 3 - aabb_at a 1)"

section \<open>Things (module thing)\<close>

record contact_directions =
  left :: bool
  right :: bool
  up :: bool
  down :: bool

text \<open>
  A timer is \<open>{ time, start, action }\<close>. The completion callback is opaque: \<open>action\<close> is
  \<open>Some c\<close> for a function, named \<open>c\<close>, and \<open>None\<close> for \<open>undefined\<close>; times are numbers.

  The table \<open>#timers\<close> is a plain object, and the names of timers are its property keys,
  strings. \<open>timers\<close> holds its own properties in the order of their creation. Its
  prototype is \<open>Object.prototype\<close> until a timer is set under the name \<open>__proto__\<close>: the
  assignment \<open>#timers['__proto__'] = v\<close> creates no property but calls the setter that
  \<open>Object.prototype\<close> provides, which makes the timer object \<open>v\<close> the prototype of the
  table. \<open>timersPrototype\<close> is \<open>None\<close> for \<open>Object.prototype\<close> and \<open>Some v\<close> for a timer
  object \<open>v\<close>, whose own prototype is \<open>Object.prototype\<close>.
\<close>

record timer =
  time :: real
  start :: real
  action :: "nat option"

record thing =
  depth :: real
  position :: point
  velocity :: "real \<times> real"
  aabb :: aabb
  contactDirections :: contact_directions
  isOverlapEnabled :: bool
  isSolid :: bool
  timers :: "(string \<times> timer) list"
  timersPrototype :: "timer option"
  isDead :: bool
  isPaused :: bool

text \<open>
  What a property read \<open>#timers[name]\<close> can give: \<open>undefined\<close>, a timer object, a number,
  a function, or the object \<open>Object.prototype\<close>. The functions that can be read are the
  callback of a timer and the methods of \<open>Object.prototype\<close>; they have no properties
  \<open>start\<close> and \<open>time\<close>, and neither has a number or \<open>Object.prototype\<close>.
\<close>

datatype property = Undefined | TimerObject timer | Number real | Function | ObjectPrototype

text \<open>The result of a subtraction: a number or \<open>NaN\<close>.\<close>

datatype number = Num real | NaN

definition objectPrototypeNames :: "string list" where
  "objectPrototypeNames =
     [''constructor'', ''__defineGetter__'', ''__defineSetter__'', ''hasOwnProperty'',
      ''__lookupGetter__'', ''__lookupSetter__'', ''isPrototypeOf'', ''propertyIsEnumerable'',
      ''toString'', ''valueOf'', ''toLocaleString'']"

text \<open>
  \<open>#timers[name]\<close>: an own property, else a property of the timer object that is the
  prototype, else a property of \<open>Object.prototype\<close>, where the accessor \<open>__proto__\<close> gives
  the prototype of the table.
\<close>

definition timersGet :: "thing \<Rightarrow> string \<Rightarrow> property" where
  "timersGet t name =
     (case map_of (timers t) name of
        Some v \<Rightarrow> TimerObject v
      | None \<Rightarrow>
          (case timersPrototype t of
             None \<Rightarrow>
               if name = ''__proto__'' then ObjectPrototype
               else if name \<in> set objectPrototypeNames then Function
               else Undefined
           | Some v \<Rightarrow>
               if name = ''time'' then Number (time v)
               else if name = ''start'' then Number (start v)
               else if name = ''action''
                 then (case action v of None \<Rightarrow> Undefined | Some c \<Rightarrow> Function)
               else if name = ''__proto__'' then TimerObject v
               else if name \<in> set objectPrototypeNames then Function
               else Undefined))"

text \<open>\<open>name in #timers\<close>.\<close>

definition timersHas :: "thing \<Rightarrow> string \<Rightarrow> bool" where
  "timersHas t name \<longleftrightarrow>
     map_of (timers t) name \<noteq> None \<or>
     (timersPrototype t \<noteq> None \<and> name \<in> {''time'', ''start'', ''action''}) \<or>
     name = ''__proto__'' \<or> name \<in> set objectPrototypeNames"

fun truthy :: "property \<Rightarrow> bool" where
  "truthy Undefined = False"
| "truthy (Number r) = (r \<noteq> 0)"
| "truthy (TimerObject v) = True"
| "truthy Function = True"
| "truthy ObjectPrototype = True"

definition setTimer :: "thing \<Rightarrow> real \<Rightarrow> nat option \<Rightarrow> string \<Rightarrow> thing" where
  "setTimer t tm act name =
     (let v = \<lparr>time = tm, start = tm, action = act\<rparr>
      in if name = ''__proto__'' then t\<lparr>timersPrototype := Some v\<rparr>
         else t\<lparr>timers := AList.update name v (timers t)\<rparr>)"

definition isTimerActive :: "thing \<Rightarrow> string \<Rightarrow> bool" where
  "isTimerActive t name = timersHas t name"

text \<open>\<open>p.start - p.time\<close> for the value \<open>p\<close> that was read.\<close>

fun startMinusTime :: "property \<Rightarrow> number" where
  "startMinusTime (TimerObject v) = Num (start v - time v)"
| "startMinusTime p = NaN"

definition getTimerFrames :: "thing \<Rightarrow> string \<Rightarrow> number" where
  "getTimerFrames t name =
     (if \<not> truthy (timersGet t name) then Num 0 else startMinusTime (timersGet t name))"

definition cancelTimer :: "thing \<Rightarrow> string \<Rightarrow> bool \<times> thing" where
  "cancelTimer t name =
     (if truthy (timersGet t name) then (True, t\<lparr>timers := AList.delete name (timers t)\<rparr>)
      else (False, t))"

text \<open>
  \<open>Object.entries\<close> lists the own properties: first those whose key is an array index,
  the canonical decimal form of an integer below \<open>2^32 - 1\<close>, in ascending order of the
  index, then the others in the order of their creation.
\<close>

definition indexValue :: "string \<Rightarrow> nat" where
  "indexValue s = foldl (\<lambda>n c. 10 * n + (of_char c - 48)) 0 s"

definition isArrayIndex :: "string \<Rightarrow> bool" where
  "isArrayIndex s \<longleftrightarrow>
     s \<noteq> [] \<and> list_all (\<lambda>c. c \<in> set ''0123456789'') s \<and> (hd s \<noteq> CHR ''0'' \<or> s = ''0'') \<and>
     indexValue s < 2 ^ 32 - 1"

definition Object_entries :: "(string \<times> timer) list \<Rightarrow> (string \<times> timer) list" where
  "Object_entries props =
     sort_key (\<lambda>entry. indexValue (fst entry)) (filter (\<lambda>entry. isArrayIndex (fst entry)) props)
     @ filter (\<lambda>entry. \<not> isArrayIndex (fst entry)) props"

text \<open>
  One round of the loop of \<open>updateTimers\<close> over the entries taken at its start:
  \<open>value.time -= 1\<close> writes to the timer object, which is the one the table holds under
  \<open>name\<close>; at zero or below the entry is deleted and then the action, when it is
  a function, is called. The calls are returned in order. Callbacks that themselves
  change the timer table are outside the model.
\<close>

definition tickTimer :: "thing \<times> nat list \<Rightarrow> string \<times> timer \<Rightarrow> thing \<times> nat list" where
  "tickTimer acc entry =
     (case acc of (t, calls) \<Rightarrow> case entry of (name, v) \<Rightarrow>
        (let v' = v\<lparr>time := time v - 1\<rparr>
         in if time v' \<le> 0
            then (t\<lparr>timers := AList.delete name (timers t)\<rparr>,
                  (case action v' of Some c \<Rightarrow> calls @ [c] | None \<Rightarrow> calls))
            else (t\<lparr>timers := AList.update name v' (timers t)\<rparr>, calls)))"

definition updateTimers :: "thing \<Rightarrow> thing \<times> nat list" where
  "updateTimers t = foldl tickTimer (t, []) (Object_entries (timers t))"

section \<open>The scene's state\<close>

text \<open>
  \<open>heap\<close> holds the fields of the Thing objects. The other fields are those of the class
  \<open>Scene\<close>: the array \<open>things\<close>, the object \<open>layers\<close> from a rounded depth to the array of
  things of that layer, \<open>layerOrder\<close>, the map \<open>depthMemory\<close>, and the spatial hash.
  Cameras and screen shakes are left out; nothing below reads them.
\<close>

record scene =
  heap :: "obj \<Rightarrow> thing"
  things :: "obj list"
  layers :: "(int \<times> obj list) list"
  layerOrder :: "int list"
  depthMemory :: "obj \<rightharpoonup> int"
  spatialHash :: spatial_hash
  namedThings :: "(string \<times> obj) list"

subsection \<open>Overlap and collision\<close>

definition isOverlapping :: "scene \<Rightarrow> obj \<Rightarrow> obj \<Rightarrow> real \<Rightarrow> real \<Rightarrow> real option \<Rightarrow> bool" where
  "isOverlapping sc this other x y z =
     (other \<noteq> this \<and>
      isOverlapEnabled (heap sc other) \<and>
      \<not> isDead (heap sc other) \<and>
      checkAabbIntersection (aabb (heap sc this)) (aabb (heap sc other))
        \<lparr>px = x, py = y, pz = z\<rparr> (position (heap sc other)))"

definition getThingsNearXywh :: "scene \<Rightarrow> real \<Rightarrow> real \<Rightarrow> real \<Rightarrow> real \<Rightarrow> obj list" where
  "getThingsNearXywh sc x y w h = SpatialHash_query (spatialHash sc) x y w h"

definition getAllOverlaps :: "scene \<Rightarrow> obj \<Rightarrow> real \<Rightarrow> real \<Rightarrow> real option \<Rightarrow> obj list" where
  "getAllOverlaps sc this x y z =
     (let a = aabb (heap sc this)
      in filter (\<lambda>other. isOverlapping sc this other x y z)
           (getThingsNearXywh sc (x + aabb_at a 0) (y + aabb_at a 1)
              (aabb_at a 2 - aabb_at a 0) (aabb_at a 3 - aabb_at a 1)))"

definition checkCollision :: "scene \<Rightarrow> obj \<Rightarrow> real \<Rightarrow> real \<Rightarrow> real option \<Rightarrow> bool" where
  "checkCollision sc this x y z =
     list_ex (\<lambda>other. isSolid (heap sc other)) (getAllOverlaps sc this x y z)"

subsection \<open>Movement\<close>

definition movementPushback :: real where
  "movementPushback = 1 / 10000"

definition clearContactDirections :: "thing \<Rightarrow> thing" where
  "clearContactDirections t =
     t\<lparr>contactDirections := \<lparr>left = False, right = False, up = False, down = False\<rparr>\<rparr>"

text \<open>The branch of the first loop of \<open>move\<close> that is taken on a collision.\<close>

definition blockedX :: "thing \<Rightarrow> real \<Rightarrow> thing" where
  "blockedX t dx =
     (let t1 = t\<lparr>velocity := (0, snd (velocity t))\<rparr>;
          t2 = t1\<lparr>position := (position t1)
                  \<lparr>px := real_of_int (round (px (position t1))) - sign dx * movementPushback\<rparr>\<rparr>;
          t3 = (if sign dx > 0
                then t2\<lparr>contactDirections := (contactDirections t2)\<lparr>right := True\<rparr>\<rparr> else t2)
      in if sign dx < 0
         then t3\<lparr>contactDirections := (contactDirections t3)\<lparr>left := True\<rparr>\<rparr> else t3)"

definition blockedY :: "thing \<Rightarrow> real \<Rightarrow> thing" where
  "blockedY t dy =
     (let t1 = t\<lparr>velocity := (fst (velocity t), 0)\<rparr>;
          t2 = t1\<lparr>position := (position t1)
                  \<lparr>py := real_of_int (round (py (position t1))) - sign dy * movementPushback\<rparr>\<rparr>;
          t3 = (if sign dy > 0
                then t2\<lparr>contactDirections := (contactDirections t2)\<lparr>down := True\<rparr>\<rparr> else t2)
      in if sign dy < 0
         then t3\<lparr>contactDirections := (contactDirections t3)\<lparr>up := True\<rparr>\<rparr> else t3)"

definition setThing :: "scene \<Rightarrow> obj \<Rightarrow> thing \<Rightarrow> scene" where
  "setThing sc this t = sc\<lparr>heap := (heap sc)(this := t)\<rparr>"

text \<open>
  The two \<open>while\<close> loops of \<open>move\<close>. With a step size that is not positive a loop need not
  end, so a run that does not return is the value \<open>None\<close>.
\<close>

partial_function (option) sweepX :: "scene \<Rightarrow> obj \<Rightarrow> real \<Rightarrow> real \<Rightarrow> scene option" where
  "sweepX sc this dx stepSize =
     (if round (dx * 1000) = 0 then Some sc
      else
        (let step = sign dx * min \<bar>dx\<bar> stepSize;
             t = heap sc this
         in if checkCollision sc this (px (position t) + step) (py (position t)) (pz (position t))
            then Some (setThing sc this (blockedX t dx))
            else sweepX
                   (setThing sc this
                      (t\<lparr>position := (position t)\<lparr>px := px (position t) + step\<rparr>\<rparr>))
                   this (dx - step) stepSize))"

partial_function (option) sweepY :: "scene \<Rightarrow> obj \<Rightarrow> real \<Rightarrow> real \<Rightarrow> scene option" where
  "sweepY sc this dy stepSize =
     (if round (dy * 1000) = 0 then Some sc
      else
        (let step = sign dy * min \<bar>dy\<bar> stepSize;
             t = heap sc this
         in if checkCollision sc this (px (position t)) (py (position t) + step) (pz (position t))
            then Some (setThing sc this (blockedY t dy))
            else sweepY
                   (setThing sc this
                      (t\<lparr>position := (position t)\<lparr>py := py (position t) + step\<rparr>\<rparr>))
                   this (dy - step) stepSize))"

definition Thing_move :: "scene \<Rightarrow> obj \<Rightarrow> real \<Rightarrow> real \<Rightarrow> real \<Rightarrow> scene option" where
  "Thing_move sc this dx dy stepSize =
     (case sweepX (setThing sc this (clearContactDirections (heap sc this))) this dx stepSize of
        None \<Rightarrow> None
      | Some sc1 \<Rightarrow> sweepY sc1 this dy stepSize)"

text \<open>\<open>move()\<close> with its default arguments: the velocity and a step size of 1.\<close>

definition Thing_move_default :: "scene \<Rightarrow> obj \<Rightarrow> scene option" where
  "Thing_move_default sc this =
     Thing_move sc this (fst (velocity (heap sc this))) (snd (velocity (heap sc this))) 1"

text \<open>A new \<open>Thing\<close>, with the initial values of the class fields.\<close>

definition Thing :: thing where
  "Thing =
     \<lparr>depth = 0,
      position = \<lparr>px = 0, py = 0, pz = None\<rparr>,
      velocity = (0, 0),
      aabb = Aabb2D (- 32) (- 32) 32 32,
      contactDirections = \<lparr>left = False, right = False, up = False, down = False\<rparr>,
      isOverlapEnabled = True,
      isSolid = False,
      timers = [],
      timersPrototype = None,
      isDead = False,
      isPaused = False\<rparr>"

section \<open>Scenes (module scene)\<close>

text \<open>A new \<open>Scene\<close> over the objects of \<open>h\<close>; the spatial hash has the default size.\<close>

definition Scene :: "(obj \<Rightarrow> thing) \<Rightarrow> scene" where
  "Scene h =
     \<lparr>heap = h, things = [], layers = [], layerOrder = [], depthMemory = Map.empty,
      spatialHash = SpatialHash 64, namedThings = []\<rparr>"

text \<open>\<open>layers[key] || []\<close>.\<close>

definition layerOf :: "(int \<times> obj list) list \<Rightarrow> int \<Rightarrow> obj list" where
  "layerOf ls key = (case map_of ls key of None \<Rightarrow> [] | Some l \<Rightarrow> l)"

text \<open>
  \<open>updateDepth\<close>. \<open>Math.round(x) || 0\<close> is \<^term>\<open>round\<close>. For a thing without an entry
  in \<open>depthMemory\<close> the previous depth is \<open>NaN\<close>: the source creates the layer \<open>NaN\<close>
  empty, splices nothing from it and deletes it again, which leaves \<open>layers\<close> as it was.
\<close>

definition updateDepth :: "scene \<Rightarrow> obj \<Rightarrow> scene" where
  "updateDepth sc thing =
     (let depth = round (depth (heap sc thing));
          previousDepth = depthMemory sc thing
      in if previousDepth = Some depth then sc
         else
           (let ls1 =
                  (case previousDepth of
                     None \<Rightarrow> layers sc
                   | Some pd \<Rightarrow>
                       (let l = spliceIndexOf thing (layerOf (layers sc) pd)
                        in if length l = 0 then AList.delete pd (layers sc)
                           else AList.update pd l (layers sc)));
                ls2 =
                  AList.update depth
                    (layerOf ls1 depth @ [thing]) ls1
            in sc\<lparr>depthMemory := (depthMemory sc)(thing \<mapsto> depth),
                  layers := ls2,
                  layerOrder := sort (map fst ls2)\<rparr>))"

definition thingXywh :: "thing \<Rightarrow> hitbox" where
  "thingXywh t = aabbToXywh (aabb2D (aabb t)) (position t)"

definition Scene_addThing :: "scene \<Rightarrow> obj \<Rightarrow> scene" where
  "Scene_addThing sc thing =
     (let sc1 = sc\<lparr>things := things sc @ [thing]\<rparr>;
          sc2 = (case thingXywh (heap sc1 thing) of (x, y, w, h) \<Rightarrow>
                   sc1\<lparr>spatialHash := SpatialHash_add (spatialHash sc1) thing x y w h\<rparr>)
      in updateDepth sc2 thing)"

text \<open>
  The things of a scene are instances of \<open>Thing\<close> or of a class of the application that
  extends it (\<open>addThing\<close> throws for anything else), and the application overrides the
  methods \<open>update\<close> and \<open>onDeath\<close>. The classes of the things are given by \<open>hooks\<close>. A
  method gets the thing and the scene and returns the heap it leaves: methods move
  things, set their flags, kill other things. Methods that add things to the scene or
  change the other fields of the scene are outside the model. \<open>className\<close> is the name of
  the class of a thing, which is what \<open>thing.constructor.name\<close> gives.
\<close>

record hooks =
  onUpdate :: "obj \<Rightarrow> scene \<Rightarrow> obj \<Rightarrow> thing"
  onDeath :: "obj \<Rightarrow> scene \<Rightarrow> obj \<Rightarrow> thing"
  className :: "obj \<Rightarrow> string"

text \<open>
  The removal of a dead thing from its layer:
  \<open>layers[Math.round(depthMemory.get(thing)) || 0]\<close>, spliced when it exists.
\<close>

definition removeFromLayer :: "scene \<Rightarrow> obj \<Rightarrow> scene" where
  "removeFromLayer sc thing =
     (let key = (case depthMemory sc thing of None \<Rightarrow> 0 | Some d \<Rightarrow> d)
      in case map_of (layers sc) key of
           None \<Rightarrow> sc
         | Some l \<Rightarrow> sc\<lparr>layers := AList.update key (spliceIndexOf thing l) (layers sc)\<rparr>)"

definition depthChanged :: "scene \<Rightarrow> obj \<Rightarrow> bool" where
  "depthChanged sc thing =
     (case depthMemory sc thing of
        None \<Rightarrow> True
      | Some d \<Rightarrow> real_of_int d \<noteq> depth (heap sc thing))"

text \<open>
  One round of the first loop of \<open>Scene.update\<close>, for the thing at index \<open>i\<close>: the scene
  it leaves and the index of the next round, which is \<open>i\<close> again after a removal, as the
  things behind fall into the slot. \<open>callUpdate\<close> is the first statement of the round: the
  \<open>update\<close> of a thing is called unless the thing is dead or paused. Reading the hitbox
  of a thing that the spatial hash does not know raises a \<open>TypeError\<close>.
\<close>

definition callUpdate :: "hooks \<Rightarrow> scene \<Rightarrow> obj \<Rightarrow> scene" where
  "callUpdate hk sc thing =
     (if \<not> isDead (heap sc thing) \<and> \<not> isPaused (heap sc thing)
      then sc\<lparr>heap := onUpdate hk thing sc\<rparr> else sc)"

definition updateSlot :: "hooks \<Rightarrow> nat \<Rightarrow> scene \<Rightarrow> error + nat \<times> scene" where
  "updateSlot hk i sc =
     (let thing = things sc ! i;
          sc1 = callUpdate hk sc thing
      in if isDead (heap sc1 thing)
         then
           (let sc2 = removeFromLayer (sc1\<lparr>heap := onDeath hk thing sc1\<rparr>) thing
            in case SpatialHash_remove (Some (className hk thing)) (spatialHash sc2) thing of
                 Inl e \<Rightarrow> Inl e
               | Inr sh \<Rightarrow>
                   Inr (i,
                        sc2\<lparr>spatialHash := sh,
                            depthMemory := (depthMemory sc2)(thing := None),
                            things := take i (things sc2) @ drop (Suc i) (things sc2)\<rparr>))
         else
           (let sc2 = (if depthChanged sc1 thing then updateDepth sc1 thing else sc1)
            in case getHitbox (spatialHash sc2) thing of
                 None \<Rightarrow> Inl TypeError
               | Some (xLast, yLast, wLast, hLast) \<Rightarrow>
                   (let t = heap sc2 thing
                    in if xLast \<noteq> px (position t) + aabb_at (aabb t) 0 \<or>
                          yLast \<noteq> py (position t) + aabb_at (aabb t) 1
                       then
                         (case thingXywh t of
                            (x, y, w, h) \<Rightarrow>
                              (case SpatialHash_update (Some (className hk thing))
                                      (spatialHash sc2) thing x y w h of
                                 Inl e \<Rightarrow> Inl e
                               | Inr sh \<Rightarrow> Inr (i + 1, sc2\<lparr>spatialHash := sh\<rparr>)))
                       else Inr (i + 1, sc2))))"

text \<open>The loop, from index \<open>i\<close> on.\<close>

function updateThings :: "hooks \<Rightarrow> nat \<Rightarrow> scene \<Rightarrow> error + scene" where
  "updateThings hk i sc =
     (if i < length (things sc)
      then (case updateSlot hk i sc of
              Inl e \<Rightarrow> Inl e
            | Inr (j, sc') \<Rightarrow> updateThings hk j sc')
      else Inr sc)"
  by pat_completeness auto
termination
  by (relation "measure (\<lambda>(hk, i, sc). length (things sc) - i)")
    (auto simp: updateSlot_def callUpdate_def removeFromLayer_def updateDepth_def Let_def
      split: option.splits sum.splits if_splits prod.splits)

text \<open>
  The state of the loop, its index and the scene, after the first \<open>k\<close> rounds; no round
  is run once the condition of the loop fails.
\<close>

fun loopRounds :: "hooks \<Rightarrow> nat \<Rightarrow> scene \<Rightarrow> error + nat \<times> scene" where
  "loopRounds hk 0 sc = Inr (0, sc)"
| "loopRounds hk (Suc k) sc =
     (case loopRounds hk k sc of
        Inl e \<Rightarrow> Inl e
      | Inr (i, s) \<Rightarrow> if i < length (things s) then updateSlot hk i s else Inr (i, s))"

text \<open>
  \<open>Scene.update\<close>: the loop over the things, then the named things that are dead are
  dropped. The screen shakes that follow are left out.
\<close>

definition Scene_update :: "hooks \<Rightarrow> scene \<Rightarrow> error + scene" where
  "Scene_update hk sc =
     (case updateThings hk 0 sc of
        Inl e \<Rightarrow> Inl e
      | Inr sc' \<Rightarrow>
          Inr (sc'\<lparr>namedThings :=
                 filter (\<lambda>(name, thing). \<not> isDead (heap sc' thing)) (namedThings sc')\<rparr>))"

text \<open>
  The state that the scene keeps: the things are distinct, the spatial hash has been
  built through its operations, every thing of the scene has a hitbox record and a
  remembered depth, and a thing is in the layer of its remembered depth, once, and in
  no other. The cell size of the spatial hash, 64 in a new scene, is positive.
\<close>

definition sceneInvariant :: "scene \<Rightarrow> bool" where
  "sceneInvariant sc \<longleftrightarrow>
     distinct (things sc) \<and>
     reachable (spatialHash sc) \<and>
     (\<forall>thing \<in> set (things sc).
        hitboxes (spatialHash sc) thing \<noteq> None \<and> depthMemory sc thing \<noteq> None) \<and>
     (\<forall>thing key. count_list (layerOf (layers sc) key) thing =
        (if depthMemory sc thing = Some key then 1 else 0)) \<and>
     0 < size_cell (spatialHash sc)"

section \<open>The frame driver (module game)\<close>

text \<open>
  The module-level variables of \<open>game.js\<close> that \<open>frame\<close> and \<open>updateHandler\<close> read or
  write. \<open>sceneExists\<close> says that \<open>scene\<close> is defined. Three fields count calls and are
  not in the source: \<open>updateHandlerCalls\<close> the calls of \<open>updateHandler\<close>, which are the
  simulation steps drained, \<open>sceneUpdates\<close> the calls of \<open>Scene.update\<close> and \<open>sceneDraws\<close>
  the calls of \<open>Scene.draw\<close>. Canvases, gamepads and the sound manager are left out.
\<close>

record mouse_state =
  mousePosition :: "real \<times> real"
  mouseDelta :: "real \<times> real"
  rawDelta :: "real \<times> real"
  scrollDelta :: "real \<times> real"
  leftButton :: bool
  leftClick :: bool
  middleButton :: bool
  middleClick :: bool
  rightButton :: bool
  rightClick :: bool

record game =
  sceneExists :: bool
  previousFrameTime :: "real option"
  accumulator :: real
  frameCount :: nat
  isFocused :: bool
  updateSpeed :: real
  impactFrameCount :: real
  gameTime :: real
  startGameTime :: "real option"
  isFramerateUncapped :: bool
  keysDown :: "string set"
  lastKeysDown :: "string set"
  keysPressed :: "string set"
  mouse :: mouse_state
  updateHandlerCalls :: nat
  sceneUpdates :: nat
  sceneDraws :: nat

text \<open>
  What one call of \<open>updateHandler\<close> finds outside the module's variables: the value of
  \<open>document.hasFocus()\<close>, whether the canvas size differs from \<open>width\<close> and \<open>height\<close>, and
  whether \<open>nextScene\<close> is set (by \<open>setScene\<close>, called by the application at any time).
\<close>

record step_env =
  hasFocus :: bool
  sizeChanged :: bool
  scenePending :: bool

definition mouse_reset :: "mouse_state \<Rightarrow> mouse_state" where
  "mouse_reset m =
     \<lparr>mousePosition = (0, 0), mouseDelta = (0, 0), rawDelta = (0, 0), scrollDelta = (0, 0),
      leftButton = False, leftClick = False, middleButton = False, middleClick = False,
      rightButton = False, rightClick = False\<rparr>"

definition loseFocus :: "game \<Rightarrow> game" where
  "loseFocus g = g\<lparr>keysDown := {}, mouse := mouse_reset (mouse g)\<rparr>"

definition gainFocus :: "game \<Rightarrow> game" where
  "gainFocus g = g\<lparr>accumulator := 99 / 100, mouse := mouse_reset (mouse g)\<rparr>"

definition handleTabbingInAndOut :: "step_env \<Rightarrow> game \<Rightarrow> game" where
  "handleTabbingInAndOut e g =
     (let focused = hasFocus e;
          g1 = (if \<not> focused \<and> isFocused g then loseFocus g else g);
          g2 = (if focused \<and> \<not> isFocused g1 then gainFocus g1 else g1)
      in g2\<lparr>isFocused := focused\<rparr>)"

definition handleSceneChange :: "step_env \<Rightarrow> game \<Rightarrow> game" where
  "handleSceneChange e g =
     (if \<not> scenePending e then g
      else g\<lparr>sceneExists := True, accumulator := 99 / 100\<rparr>)"

definition handleCanvasResize :: "step_env \<Rightarrow> game \<Rightarrow> game" where
  "handleCanvasResize e g = (if sizeChanged e then g\<lparr>accumulator := 99 / 100\<rparr> else g)"

definition game_update :: "game \<Rightarrow> game" where
  "game_update g = (if sceneExists g then g\<lparr>sceneUpdates := sceneUpdates g + 1\<rparr> else g)"

definition game_draw :: "game \<Rightarrow> game" where
  "game_draw g = (if sceneExists g then g\<lparr>sceneDraws := sceneDraws g + 1\<rparr> else g)"

text \<open>\<open>updateHandler\<close> returns \<open>undefined\<close>, here \<open>False\<close>, when the window has no focus.\<close>

definition updateHandler :: "step_env \<Rightarrow> game \<Rightarrow> bool \<times> game" where
  "updateHandler e g =
     (let g1 = handleCanvasResize e (g\<lparr>updateHandlerCalls := updateHandlerCalls g + 1\<rparr>);
          g2 = handleTabbingInAndOut e g1;
          g3 = handleSceneChange e g2
      in if \<not> isFocused g3 then (False, g3)
         else
           (let g4 = g3\<lparr>keysPressed := keysDown g3 - lastKeysDown g3\<rparr>;
                g5 = (if sceneExists g4 then game_update g4 else g4)
            in (True, g5)))"

text \<open>
  The \<open>while\<close> loop of \<open>frame\<close>, with \<open>ntimes\<close> for the counter \<open>times\<close>; \<open>env ntimes\<close> is
  what the call of \<open>updateHandler\<close> of that round finds.
\<close>

function drain :: "(nat \<Rightarrow> step_env) \<Rightarrow> real \<Rightarrow> game \<Rightarrow> nat \<Rightarrow> bool \<Rightarrow> game \<times> nat \<times> bool" where
  "drain env frameTime g ntimes rerender =
     (if accumulator g \<ge> 1 \<and> ntimes < 5
      then
        (case updateHandler (env ntimes) g of
           (r, g1) \<Rightarrow>
             drain env frameTime
               (g1\<lparr>gameTime := frameTime, accumulator := accumulator g1 - 1\<rparr>)
               (ntimes + 1) (r \<or> rerender))
      else (g, ntimes, rerender))"
  by pat_completeness auto
termination
  by (relation "measure (\<lambda>(env, frameTime, g, ntimes, rerender). 5 - ntimes)") auto

text \<open>The remainder \<open>a % m\<close> of JavaScript has the sign of \<open>a\<close>.\<close>

definition jsRemainder :: "real \<Rightarrow> real \<Rightarrow> real" where
  "jsRemainder a m =
     a - m * real_of_int (if a / m \<ge> 0 then \<lfloor>a / m\<rfloor> else \<lceil>a / m\<rceil>)"

text \<open>
  \<open>frame\<close>, up to the request for the next animation frame. \<open>focusAtDraw\<close> is the value
  of \<open>document.hasFocus()\<close> in the rendering branch.
\<close>

definition frame :: "(nat \<Rightarrow> step_env) \<Rightarrow> bool \<Rightarrow> real \<Rightarrow> game \<Rightarrow> game" where
  "frame env focusAtDraw frameTime g =
     (let delta0 = (case previousFrameTime g of None \<Rightarrow> 0 | Some p \<Rightarrow> (frameTime - p) / 1000);
          delta = delta0 * 60 * updateSpeed g;
          g1 = g\<lparr>previousFrameTime := Some frameTime,
                 startGameTime :=
                   (case startGameTime g of
                      None \<Rightarrow> Some frameTime
                    | Some s \<Rightarrow> if s = 0 then Some frameTime else Some s)\<rparr>;
          g2 = (if impactFrameCount g1 > 0
                then g1\<lparr>impactFrameCount := impactFrameCount g1 - delta\<rparr>
                else g1\<lparr>accumulator := accumulator g1 + delta\<rparr>)
      in case drain env frameTime g2 0 False of
           (g3, ntimes, rerender) \<Rightarrow>
             (let g4 = g3\<lparr>accumulator := jsRemainder (accumulator g3) 1\<rparr>;
                  g5 = (if rerender \<or> isFramerateUncapped g4
                        then
                          (let g' = (if focusAtDraw then game_draw g4 else g4)
                           in g'\<lparr>mouse := (mouse g')\<lparr>rawDelta := (0, 0)\<rparr>,
                                 frameCount := frameCount g' + 1\<rparr>)
                        else g4)
              in if rerender
                 then g5\<lparr>lastKeysDown := keysDown g5,
                         mouse := (mouse g5)\<lparr>leftClick := False, middleClick := False,
                           rightClick := False, mouseDelta := (0, 0), scrollDelta := (0, 0)\<rparr>\<rparr>
                 else g5))"

text \<open>The variables as the module initialises them.\<close>

definition initialGame :: game where
  "initialGame =
     \<lparr>sceneExists = False, previousFrameTime = None, accumulator = 99 / 100, frameCount = 0,
      isFocused = True, updateSpeed = 1, impactFrameCount = 0, gameTime = 0,
      startGameTime = None, isFramerateUncapped = False, keysDown = {}, lastKeysDown = {},
      keysPressed = {},
      mouse = \<lparr>mousePosition = (0, 0), mouseDelta = (0, 0), rawDelta = (0, 0),
        scrollDelta = (0, 0), leftButton = False, leftClick = False, middleButton = False,
        middleClick = False, rightButton = False, rightClick = False\<rparr>,
      updateHandlerCalls = 0, sceneUpdates = 0, sceneDraws = 0\<rparr>"

section \<open>Touching boxes\<close>

text \<open>
  Two intervals meet when they share a point and abut when an end of one is an end of
  the other. Two boxes touch when, in one axis, their extents abut and, in every other
  axis, they meet; the extents are those the intersection test compares: of the
  four-element boxes unless both boxes have six elements and both positions a third
  coordinate.
\<close>

definition rangesMeet :: "real \<Rightarrow> real \<Rightarrow> real \<Rightarrow> real \<Rightarrow> bool" where
  "rangesMeet lo1 hi1 lo2 hi2 \<longleftrightarrow> lo1 \<le> hi2 \<and> lo2 \<le> hi1"

definition rangesAbut :: "real \<Rightarrow> real \<Rightarrow> real \<Rightarrow> real \<Rightarrow> bool" where
  "rangesAbut lo1 hi1 lo2 hi2 \<longleftrightarrow> lo1 \<le> hi1 \<and> lo2 \<le> hi2 \<and> (hi1 = lo2 \<or> hi2 = lo1)"

definition boxesTouch :: "aabb \<Rightarrow> aabb \<Rightarrow> point \<Rightarrow> point \<Rightarrow> bool" where
  "boxesTouch a b p q =
     (if aabb_length a = 6 \<and> aabb_length b = 6 \<and> pz p \<noteq> None \<and> pz q \<noteq> None
      then
        (let ax = (aabb_at a 0 + px p, aabb_at a 3 + px p);
             ay = (aabb_at a 1 + py p, aabb_at a 4 + py p);
             az = (aabb_at a 2 + the (pz p), aabb_at a 5 + the (pz p));
             bx = (aabb_at b 0 + px q, aabb_at b 3 + px q);
             by = (aabb_at b 1 + py q, aabb_at b 4 + py q);
             bz = (aabb_at b 2 + the (pz q), aabb_at b 5 + the (pz q));
             mx = rangesMeet (fst ax) (snd ax) (fst bx) (snd bx);
             my = rangesMeet (fst ay) (snd ay) (fst by) (snd by);
             mz = rangesMeet (fst az) (snd az) (fst bz) (snd bz);
             tx = rangesAbut (fst ax) (snd ax) (fst bx) (snd bx);
             ty = rangesAbut (fst ay) (snd ay) (fst by) (snd by);
             tz = rangesAbut (fst az) (snd az) (fst bz) (snd bz)
         in (tx \<and> my \<and> mz) \<or> (mx \<and> ty \<and> mz) \<or> (mx \<and> my \<and> tz))
      else
        (let a2 = aabb2D a; b2 = aabb2D b;
             ax = (aabb_at a2 0 + px p, aabb_at a2 2 + px p);
             ay = (aabb_at a2 1 + py p, aabb_at a2 3 + py p);
             bx = (aabb_at b2 0 + px q, aabb_at b2 2 + px q);
             by = (aabb_at b2 1 + py q, aabb_at b2 3 + py q);
             mx = rangesMeet (fst ax) (snd ax) (fst bx) (snd bx);
             my = rangesMeet (fst ay) (snd ay) (fst by) (snd by);
             tx = rangesAbut (fst ax) (snd ax) (fst bx) (snd bx);
             ty = rangesAbut (fst ay) (snd ay) (fst by) (snd by)
         in (tx \<and> my) \<or> (mx \<and> ty)))"





section \<open>Example scenes\<close>

text \<open>
  Two things with the box \<open>[-8, -8, 8, 8]\<close>, added to a new scene in this order: a mover,
  object 0, at \<open>(x, 0)\<close>, and a solid blocker, object 1, at \<open>(x + 16, 0)\<close>, so that the right
  edge of the mover is the left edge of the blocker.
\<close>

definition adjacentThings :: "real \<Rightarrow> obj \<Rightarrow> thing" where
  "adjacentThings x =
     (\<lambda>_. Thing)
       (0 := Thing\<lparr>position := \<lparr>px = x, py = 0, pz = None\<rparr>, velocity := (5, 0),
                  aabb := Aabb2D (- 8) (- 8) 8 8\<rparr>,
        1 := Thing\<lparr>position := \<lparr>px = x + 16, py = 0, pz = None\<rparr>,
                  aabb := Aabb2D (- 8) (- 8) 8 8, isSolid := True\<rparr>)"

definition adjacentScene :: "real \<Rightarrow> scene" where
  "adjacentScene x = Scene_addThing (Scene_addThing (Scene (adjacentThings x)) 0) 1"

text \<open>
  Two things with the same box, added to a new scene in this order: object 0 at
  \<open>(0, 0)\<close> and object 1, solid or not, at \<open>(16 + gap, 0)\<close>; \<open>z\<close> is the third coordinate of
  both positions. With the box \<open>[-8, -8, 8, 8]\<close> or \<open>[-8, -8, -8, 8, 8, 8]\<close> and no gap the
  right side of object 0 is the left side of object 1.
\<close>

definition pairThings :: "aabb \<Rightarrow> real option \<Rightarrow> bool \<Rightarrow> real \<Rightarrow> obj \<Rightarrow> thing" where
  "pairThings box z solid gap =
     (\<lambda>_. Thing)
       (0 := Thing\<lparr>position := \<lparr>px = 0, py = 0, pz = z\<rparr>, aabb := box\<rparr>,
        1 := Thing\<lparr>position := \<lparr>px = 16 + gap, py = 0, pz = z\<rparr>, aabb := box,
                  isSolid := solid\<rparr>)"


text \<open>A scene with one thing whose contact flag \<open>right\<close> is set.\<close>

definition contactScene :: scene where
  "contactScene =
     Scene_addThing
       (Scene ((\<lambda>_. Thing)
          (0 := Thing\<lparr>contactDirections :=
                  \<lparr>left = False, right = True, up = False, down = False\<rparr>\<rparr>)))
       0"

section \<open>Example runs of the frame driver\<close>

text \<open>
  No call of \<open>updateHandler\<close> of one callback resets the accumulator: none of the (at most
  five) calls finds a changed canvas size or a pending scene, and none finds the focus
  regained, that is, focus where the call before it, or \<open>isFocused\<close> at the first call,
  had none.
\<close>

definition noAccumulatorReset :: "(nat \<Rightarrow> step_env) \<Rightarrow> game \<Rightarrow> bool" where
  "noAccumulatorReset env g \<longleftrightarrow>
     (\<forall>k<5. \<not> sizeChanged (env k) \<and> \<not> scenePending (env k) \<and>
        (hasFocus (env k) \<longrightarrow> (if k = 0 then isFocused g else hasFocus (env (k - 1)))))"

text \<open>
  A game that has a scene and has seen a frame at time 0; a focused window in which
  nothing happens; the same with a scene change pending at the first step; a window
  without focus.
\<close>

definition runningGame :: game where
  "runningGame = initialGame\<lparr>sceneExists := True, previousFrameTime := Some 0\<rparr>"

definition steadyEnv :: "nat \<Rightarrow> step_env" where
  "steadyEnv = (\<lambda>k. \<lparr>hasFocus = True, sizeChanged = False, scenePending = False\<rparr>)"

definition sceneChangeEnv :: "nat \<Rightarrow> step_env" where
  "sceneChangeEnv = (\<lambda>k. \<lparr>hasFocus = True, sizeChanged = False, scenePending = (k = 0)\<rparr>)"

definition unfocusedEnv :: "nat \<Rightarrow> step_env" where
  "unfocusedEnv = (\<lambda>k. \<lparr>hasFocus = False, sizeChanged = False, scenePending = False\<rparr>)"

section \<open>An example scene with a killer\<close>

text \<open>
  Two new things, objects 0 and 1, added to a new scene in this order. The \<open>update\<close> of
  thing 1 sets \<open>isDead\<close> on every thing, itself and thing 0 included; the \<open>update\<close> of
  thing 0 and the \<open>onDeath\<close> methods do nothing.
\<close>

definition twoThingsScene :: scene where
  "twoThingsScene = Scene_addThing (Scene_addThing (Scene (\<lambda>_. Thing)) 0) 1"

definition killerHooks :: hooks where
  "killerHooks =
     \<lparr>onUpdate = (\<lambda>thing sc. if thing = 1 then (\<lambda>u. (heap sc u)\<lparr>isDead := True\<rparr>) else heap sc),
      onDeath = (\<lambda>thing sc. heap sc),
      className = (\<lambda>thing. ''Thing'')\<rparr>"

section \<open>Properties of the spatial hash\<close>

lemma coveredCells_product:
  "coveredCells sz x y w h =
     List.product [\<lfloor>x / sz\<rfloor>..\<lfloor>(x + w) / sz\<rfloor>] [\<lfloor>y / sz\<rfloor>..\<lfloor>(y + h) / sz\<rfloor>]"
  by (simp add: coveredCells_def cellCoord_def List.product_concat_map)

lemma distinct_coveredCells: "distinct (coveredCells sz x y w h)"
  by (simp add: coveredCells_product distinct_product)

lemma distinct_hitboxCells: "distinct (hitboxCells sz r)"
  by (simp add: hitboxCells_def distinct_coveredCells split: prod.splits)

lemma in_coveredCells:
  "(cx, cy) \<in> set (coveredCells sz x y w h) \<longleftrightarrow>
     \<lfloor>x / sz\<rfloor> \<le> cx \<and> cx \<le> \<lfloor>(x + w) / sz\<rfloor> \<and> \<lfloor>y / sz\<rfloor> \<le> cy \<and> cy \<le> \<lfloor>(y + h) / sz\<rfloor>"
  by (auto simp: coveredCells_product)

subsection \<open>add\<close>

lemma addToCell_fields [simp]:
  "size_cell (addToCell object sh key) = size_cell sh"
  "hitboxes (addToCell object sh key) = hitboxes sh"
  "console (addToCell object sh key) = console sh"
  by (simp_all add: addToCell_def)

lemma cellObjects_addToCell:
  "cellObjects (addToCell object sh key) key' =
     (if key' = key then cellObjects sh key @ [object] else cellObjects sh key')"
  by (simp add: addToCell_def cellObjects_def)

lemma objectCells_addToCell:
  "objectCells (addToCell object sh key) object' =
     (if object' = object then objectCells sh object @ [key] else objectCells sh object')"
  by (simp add: addToCell_def objectCells_def)

lemma foldl_addToCell_fields [simp]:
  "size_cell (foldl (addToCell object) sh keys) = size_cell sh"
  "hitboxes (foldl (addToCell object) sh keys) = hitboxes sh"
  "console (foldl (addToCell object) sh keys) = console sh"
  by (induction keys arbitrary: sh; simp)+

lemma cellObjects_foldl_addToCell:
  "cellObjects (foldl (addToCell object) sh keys) key =
     cellObjects sh key @ replicate (count_list keys key) object"
proof (induction keys arbitrary: sh)
  case Nil
  then show ?case by simp
next
  case (Cons k keys)
  then show ?case
    by (simp add: cellObjects_addToCell replicate_app_Cons_same)
qed

lemma objectCells_foldl_addToCell:
  "objectCells (foldl (addToCell object) sh keys) object' =
     (if object' = object then objectCells sh object @ keys else objectCells sh object')"
  by (induction keys arbitrary: sh) (simp_all add: objectCells_addToCell)

lemma SpatialHash_add_fields [simp]:
  "size_cell (SpatialHash_add sh object x y w h) = size_cell sh"
  "hitboxes (SpatialHash_add sh object x y w h) = (hitboxes sh)(object \<mapsto> (x, y, w, h))"
  "console (SpatialHash_add sh object x y w h) = console sh"
  by (simp_all add: SpatialHash_add_def)

lemma cellObjects_hitboxes_update:
  "cellObjects (sh\<lparr>hitboxes := hb\<rparr>) = cellObjects sh"
  by (simp add: cellObjects_def fun_eq_iff)

lemma objectCells_hitboxes_update:
  "objectCells (sh\<lparr>hitboxes := hb\<rparr>) = objectCells sh"
  by (simp add: objectCells_def fun_eq_iff)

lemma cellObjects_SpatialHash_add:
  "cellObjects (SpatialHash_add sh object x y w h) key =
     cellObjects sh key @ replicate (count_list (coveredCells (size_cell sh) x y w h) key) object"
  by (simp add: SpatialHash_add_def cellObjects_foldl_addToCell cellObjects_hitboxes_update)

lemma objectCells_SpatialHash_add:
  "objectCells (SpatialHash_add sh object x y w h) object' =
     (if object' = object then objectCells sh object @ coveredCells (size_cell sh) x y w h
      else objectCells sh object')"
  by (simp add: SpatialHash_add_def objectCells_foldl_addToCell objectCells_hitboxes_update)

lemma consistent_new: "consistent (SpatialHash sz)"
  by (simp add: consistent_def SpatialHash_def cellObjects_def objectCells_def)

lemma count_list_replicate:
  "count_list (replicate n x) y = (if x = y then n else 0)"
  by (induction n) auto

lemma consistentD1:
  "consistent sh \<Longrightarrow>
   count_list (cellObjects sh key) object = count_list (objectCells sh object) key"
  unfolding consistent_def by blast

lemma consistentD2:
  "consistent sh \<Longrightarrow>
   objectCells sh object =
     (case hitboxes sh object of None \<Rightarrow> [] | Some r \<Rightarrow> hitboxCells (size_cell sh) r)"
  unfolding consistent_def by blast

lemma consistent_add:
  assumes "consistent sh" and "objects sh object = None"
  shows "consistent (SpatialHash_add sh object x y w h)"
proof -
  have none: "objectCells sh object = []"
    using assms(2) by (simp add: objectCells_def)
  show ?thesis
    unfolding consistent_def
  proof (intro conjI allI)
    fix object' key
    show "count_list (cellObjects (SpatialHash_add sh object x y w h) key) object'
        = count_list (objectCells (SpatialHash_add sh object x y w h) object') key"
      using none
      by (simp add: consistentD1 [OF assms(1)] cellObjects_SpatialHash_add
          objectCells_SpatialHash_add count_list_replicate)
  next
    fix object'
    show "objectCells (SpatialHash_add sh object x y w h) object' =
        (case hitboxes (SpatialHash_add sh object x y w h) object' of
           None \<Rightarrow> [] | Some r \<Rightarrow> hitboxCells (size_cell (SpatialHash_add sh object x y w h)) r)"
      using none consistentD2 [OF assms(1), of object']
      by (simp add: objectCells_SpatialHash_add hitboxCells_def split: option.splits)
  qed
qed

subsection \<open>remove\<close>

lemma removeFromCell_Inr:
  assumes "object \<in> set (cellObjects sh key)"
  shows "\<exists>sh'. removeFromCell object sh key = Inr sh'
     \<and> size_cell sh' = size_cell sh \<and> objects sh' = objects sh
     \<and> hitboxes sh' = hitboxes sh \<and> console sh' = console sh
     \<and> (\<forall>key'. cellObjects sh' key' =
           (if key' = key then remove1 object (cellObjects sh key) else cellObjects sh key'))"
proof -
  from assms obtain os where os: "hash sh key = Some os" "object \<in> set os"
    by (cases "hash sh key") (auto simp: cellObjects_def)
  then show ?thesis
    by (auto simp: removeFromCell_def spliceIndexOf_def cellObjects_def Let_def)
qed

lemma removeFromCells_Inr:
  assumes "distinct keys" and "\<forall>key \<in> set keys. object \<in> set (cellObjects sh key)"
  shows "\<exists>sh'. removeFromCells object sh keys = Inr sh'
     \<and> size_cell sh' = size_cell sh \<and> objects sh' = objects sh
     \<and> hitboxes sh' = hitboxes sh \<and> console sh' = console sh
     \<and> (\<forall>key'. cellObjects sh' key' =
           (if key' \<in> set keys then remove1 object (cellObjects sh key')
            else cellObjects sh key'))"
  using assms
proof (induction keys arbitrary: sh)
  case Nil
  then show ?case by simp
next
  case (Cons key keys)
  from Cons.prems have "object \<in> set (cellObjects sh key)" by simp
  from removeFromCell_Inr [OF this] obtain sh1 where
    sh1: "removeFromCell object sh key = Inr sh1" "size_cell sh1 = size_cell sh"
      "objects sh1 = objects sh" "hitboxes sh1 = hitboxes sh" "console sh1 = console sh"
      "\<And>key'. cellObjects sh1 key' =
           (if key' = key then remove1 object (cellObjects sh key) else cellObjects sh key')"
    by blast
  have "distinct keys" and notin: "key \<notin> set keys"
    using Cons.prems by simp_all
  moreover have "\<forall>k \<in> set keys. object \<in> set (cellObjects sh1 k)"
    using Cons.prems notin by (auto simp: sh1(6))
  ultimately obtain sh2 where
    sh2: "removeFromCells object sh1 keys = Inr sh2" "size_cell sh2 = size_cell sh1"
      "objects sh2 = objects sh1" "hitboxes sh2 = hitboxes sh1" "console sh2 = console sh1"
      "\<And>key'. cellObjects sh2 key' =
           (if key' \<in> set keys then remove1 object (cellObjects sh1 key')
            else cellObjects sh1 key')"
    using Cons.IH [of sh1] by blast
  show ?case
    using sh1 sh2 notin by auto
qed

lemma count_list_remove1:
  "count_list (remove1 x xs) y = (if x = y then count_list xs y - 1 else count_list xs y)"
  by (induction xs) auto

lemma count_list_distinct:
  "distinct xs \<Longrightarrow> count_list xs x = (if x \<in> set xs then 1 else 0)"
  by (induction xs) auto

lemma count_list_pos_iff: "0 < count_list xs x \<longleftrightarrow> x \<in> set xs"
  by (induction xs) auto

lemma distinct_objectCells: "consistent sh \<Longrightarrow> distinct (objectCells sh object)"
  by (simp add: consistentD2 distinct_hitboxCells split: option.splits)

lemma SpatialHash_remove_consistent:
  assumes "consistent sh" and "objects sh object \<noteq> None \<or> cn \<noteq> None"
  shows "\<exists>sh'. SpatialHash_remove cn sh object = Inr sh' \<and> consistent sh'
     \<and> size_cell sh' = size_cell sh \<and> objects sh' object = None"
proof (cases "objects sh object")
  case None
  with assms(2) obtain name where name: "cn = Some name"
    by auto
  have "consistent (sh\<lparr>console := console sh @ [notInSpatialHash name]\<rparr>)"
    using assms(1)
    by (simp add: consistent_def cellObjects_def objectCells_def cong: option.case_cong)
  with None show ?thesis
    by (simp add: SpatialHash_remove_def name)
next
  case (Some keys)
  then have keys: "objectCells sh object = keys"
    by (simp add: objectCells_def)
  have dist: "distinct keys"
    using distinct_objectCells [OF assms(1), of object] keys by simp
  have "\<forall>key \<in> set keys. object \<in> set (cellObjects sh key)"
    using consistentD1 [OF assms(1), of _ object] keys count_list_pos_iff [of keys]
    by (metis count_list_pos_iff)
  from removeFromCells_Inr [OF dist this] obtain sh1 where
    sh1: "removeFromCells object sh keys = Inr sh1" "size_cell sh1 = size_cell sh"
      "objects sh1 = objects sh" "hitboxes sh1 = hitboxes sh"
      "\<And>key'. cellObjects sh1 key' =
           (if key' \<in> set keys then remove1 object (cellObjects sh key')
            else cellObjects sh key')"
    by blast
  define sh' where "sh' = sh1\<lparr>objects := (objects sh1)(object := None),
                   hitboxes := (hitboxes sh1)(object := None)\<rparr>"
  have res: "SpatialHash_remove cn sh object = Inr sh'"
    using Some sh1(1) by (simp add: SpatialHash_remove_def sh'_def)
  have sz: "size_cell sh' = size_cell sh"
    by (simp add: sh'_def sh1(2))
  have hb: "hitboxes sh' = (hitboxes sh)(object := None)"
    by (simp add: sh'_def sh1(4))
  have cells: "cellObjects sh' key = cellObjects sh1 key" for key
    by (simp add: cellObjects_def sh'_def)
  have objs: "objectCells sh' object' = (if object' = object then [] else objectCells sh object')"
    for object'
    by (simp add: objectCells_def sh1(3) sh'_def)
  have "consistent sh'"
    unfolding consistent_def
  proof (intro conjI allI)
    fix object' key
    show "count_list (cellObjects sh' key) object' = count_list (objectCells sh' object') key"
      using consistentD1 [OF assms(1), of key object'] keys dist
      by (auto simp: cells objs sh1(5) count_list_remove1 count_list_distinct)
  next
    fix object'
    show "objectCells sh' object' =
        (case hitboxes sh' object' of None \<Rightarrow> [] | Some r \<Rightarrow> hitboxCells (size_cell sh') r)"
      using consistentD2 [OF assms(1), of object']
      by (simp add: objs sz hb split: option.splits)
  qed
  moreover have "objects sh' object = None"
    by (simp add: sh'_def)
  ultimately show ?thesis
    using res sz by simp
qed

lemma SpatialHash_remove_Inr_cases:
  "SpatialHash_remove cn sh object = Inr sh' \<Longrightarrow> objects sh object \<noteq> None \<or> cn \<noteq> None"
  by (auto simp: SpatialHash_remove_def split: option.splits)

lemma consistent_remove:
  assumes "consistent sh" and "SpatialHash_remove cn sh object = Inr sh'"
  shows "consistent sh'"
  using SpatialHash_remove_consistent [OF assms(1) SpatialHash_remove_Inr_cases [OF assms(2)]]
    assms(2)
  by auto

lemma consistent_update:
  assumes "consistent sh" and "SpatialHash_update cn sh object x y w h = Inr sh'"
  shows "consistent sh'"
proof -
  from assms(2) obtain sh1 where
    r: "SpatialHash_remove cn sh object = Inr sh1" and a: "sh' = SpatialHash_add sh1 object x y w h"
    by (auto simp: SpatialHash_update_def split: sum.splits)
  from SpatialHash_remove_consistent [OF assms(1) SpatialHash_remove_Inr_cases [OF r]] r
  have "consistent sh1" "objects sh1 object = None"
    by auto
  with a show ?thesis
    by (simp add: consistent_add)
qed

lemma reachable_consistent: "reachable sh \<Longrightarrow> consistent sh"
proof (induction rule: reachable.induct)
  case (reachable_new sz)
  show ?case by (rule consistent_new)
next
  case (reachable_add sh object x y width height)
  then show ?case by (simp add: consistent_add)
next
  case (reachable_remove sh object sh')
  then show ?case by (blast intro: consistent_remove)
next
  case (reachable_update sh object x y width height sh')
  then show ?case by (blast intro: consistent_update)
qed

subsection \<open>query\<close>

lemma count_list_concat:
  "count_list (concat xss) x = (\<Sum>xs\<leftarrow>xss. count_list xs x)"
  by (induction xss) auto

lemma sum_list_indicator:
  "(\<Sum>x\<leftarrow>xs. if P x then 1 else 0) = length (filter P xs)"
  by (induction xs) auto

lemma count_query:
  assumes "consistent sh" and "hitboxes sh object = Some r"
  shows "count_list (SpatialHash_query sh x y w h) object
       = length (filter (\<lambda>key. key \<in> set (hitboxCells (size_cell sh) r))
            (coveredCells (size_cell sh) x y w h))"
proof -
  have "objectCells sh object = hitboxCells (size_cell sh) r"
    using consistentD2 [OF assms(1), of object] assms(2) by simp
  then have "count_list (cellObjects sh key) object
      = (if key \<in> set (hitboxCells (size_cell sh) r) then 1 else 0)" for key
    using consistentD1 [OF assms(1), of key object]
    by (simp add: count_list_distinct distinct_hitboxCells)
  then show ?thesis
    by (simp add: SpatialHash_query_def count_list_concat comp_def sum_list_indicator)
qed

lemma query_member_tracked:
  assumes "consistent sh" and "object \<in> set (SpatialHash_query sh x y w h)"
  shows "\<exists>r. hitboxes sh object = Some r
     \<and> (\<exists>key \<in> set (coveredCells (size_cell sh) x y w h). key \<in> set (hitboxCells (size_cell sh) r))"
proof -
  from assms(2) obtain key where
    key: "key \<in> set (coveredCells (size_cell sh) x y w h)" "object \<in> set (cellObjects sh key)"
    by (auto simp: SpatialHash_query_def)
  then have "key \<in> set (objectCells sh object)"
    using consistentD1 [OF assms(1), of key object] count_list_pos_iff
    by metis
  then show ?thesis
    using consistentD2 [OF assms(1), of object] key(1)
    by (cases "hitboxes sh object") auto
qed

lemma common_cell:
  assumes "0 < sz" and "rectsIntersect (x1, y1, w1, h1) (x2, y2, w2, h2)"
  shows "\<exists>key. key \<in> set (coveredCells sz x1 y1 w1 h1) \<and> key \<in> set (coveredCells sz x2 y2 w2 h2)"
proof -
  let ?px = "max x1 x2" and ?py = "max y1 y2"
  have x: "x1 \<le> ?px" "?px \<le> x1 + w1" "x2 \<le> ?px" "?px \<le> x2 + w2"
    and y: "y1 \<le> ?py" "?py \<le> y1 + h1" "y2 \<le> ?py" "?py \<le> y2 + h2"
    using assms(2) by (simp_all add: rectsIntersect_def)
  have mono: "a \<le> b \<Longrightarrow> \<lfloor>a / sz\<rfloor> \<le> \<lfloor>b / sz\<rfloor>" for a b :: real
    using assms(1) by (simp add: divide_right_mono floor_mono)
  have "(\<lfloor>?px / sz\<rfloor>, \<lfloor>?py / sz\<rfloor>) \<in> set (coveredCells sz x1 y1 w1 h1)"
    unfolding in_coveredCells using x y mono by blast
  moreover have "(\<lfloor>?px / sz\<rfloor>, \<lfloor>?py / sz\<rfloor>) \<in> set (coveredCells sz x2 y2 w2 h2)"
    unfolding in_coveredCells using x y mono by blast
  ultimately show ?thesis by blast
qed

lemma query_contains:
  assumes "consistent sh" and "0 < size_cell sh"
    and "hitboxes sh object = Some r" and "rectsIntersect r (x, y, w, h)"
  shows "object \<in> set (SpatialHash_query sh x y w h)"
proof -
  obtain x1 y1 w1 h1 where r: "r = (x1, y1, w1, h1)"
    by (cases r) auto
  from common_cell [OF assms(2)] assms(4) r obtain key where
    key: "key \<in> set (coveredCells (size_cell sh) x1 y1 w1 h1)"
      "key \<in> set (coveredCells (size_cell sh) x y w h)"
    by blast
  have "count_list (SpatialHash_query sh x y w h) object
       = length (filter (\<lambda>key. key \<in> set (hitboxCells (size_cell sh) r))
            (coveredCells (size_cell sh) x y w h))"
    by (rule count_query [OF assms(1) assms(3)])
  moreover have "key \<in> set (filter (\<lambda>key. key \<in> set (hitboxCells (size_cell sh) r))
            (coveredCells (size_cell sh) x y w h))"
    using key r by (simp add: hitboxCells_def)
  ultimately have "0 < count_list (SpatialHash_query sh x y w h) object"
    using length_pos_if_in_set by fastforce
  then show ?thesis
    by (simp add: count_list_pos_iff)
qed

lemma length_filter_mem:
  assumes "distinct xs"
  shows "length (filter (\<lambda>x. x \<in> set ys) xs) = card (set xs \<inter> set ys)"
proof -
  have "distinct (filter (\<lambda>x. x \<in> set ys) xs)"
    using assms by simp
  then have "length (filter (\<lambda>x. x \<in> set ys) xs) = card (set (filter (\<lambda>x. x \<in> set ys) xs))"
    by (simp only: distinct_card)
  also have "set (filter (\<lambda>x. x \<in> set ys) xs) = set xs \<inter> set ys"
    by auto
  finally show ?thesis .
qed

lemma length_filter_mem_commute:
  assumes "distinct xs" and "distinct ys"
  shows "length (filter (\<lambda>x. x \<in> set ys) xs) = length (filter (\<lambda>y. y \<in> set xs) ys)"
  by (simp add: length_filter_mem [OF assms(1)] length_filter_mem [OF assms(2)] Int_commute)

lemma SpatialHash_fields [simp]:
  "size_cell (SpatialHash sz) = sz"
  "hash (SpatialHash sz) = Map.empty"
  "objects (SpatialHash sz) = Map.empty"
  "hitboxes (SpatialHash sz) = Map.empty"
  "console (SpatialHash sz) = []"
  by (simp_all add: SpatialHash_def)

lemma cellObjects_SpatialHash [simp]: "cellObjects (SpatialHash sz) key = []"
  by (simp add: cellObjects_def)

lemma coveredCells_example1: "coveredCells 64 0 0 10 10 = [(0, 0)]"
  by (simp add: coveredCells_def cellCoord_def)

lemma coveredCells_example2: "coveredCells 64 20 20 5 5 = [(0, 0)]"
  by (simp add: coveredCells_def cellCoord_def)

lemma coveredCells_example3: "coveredCells 64 0 0 100 10 = [(0, 0), (1, 0)]"
  by (simp add: coveredCells_def cellCoord_def upto.simps)

lemma coveredCells_example4: "coveredCells 64 200 0 10 10 = [(3, 0)]"
  by (simp add: coveredCells_def cellCoord_def)

lemma coveredCells_example5: "coveredCells 64 5 5 20 20 = [(0, 0)]"
  by (simp add: coveredCells_def cellCoord_def)

section \<open>Removal of an untracked object\<close>

lemma objects_removeFromCell:
  "removeFromCell object sh key = Inr sh' \<Longrightarrow> objects sh' = objects sh"
  by (auto simp: removeFromCell_def Let_def split: option.splits if_splits)

lemma objects_removeFromCells:
  "removeFromCells object sh keys = Inr sh' \<Longrightarrow> objects sh' = objects sh"
proof (induction keys arbitrary: sh)
  case Nil
  then show ?case by simp
next
  case (Cons key keys)
  then show ?case
    by (auto split: sum.splits dest: objects_removeFromCell)
qed

lemma objects_SpatialHash_remove:
  "SpatialHash_remove cn sh object = Inr sh' \<Longrightarrow> objects sh' object = None"
  by (auto simp: SpatialHash_remove_def split: option.splits sum.splits
      dest: objects_removeFromCells)

text \<open>
  \<open>remove\<close> of an object that has no entry in \<open>objects\<close> (it was never added, or a
  successful \<open>remove\<close> has deleted the entry) and whose \<open>constructor.name\<close> can be read
  does not raise: it returns normally, the only effect is one more \<open>console.error\<close>
  message, and \<open>hash\<close>, \<open>objects\<close> and \<open>hitboxes\<close> are what they were.
\<close>

lemma remove_untracked_logs_and_keeps_state:
  "(objects sh object = None \<longrightarrow>
      SpatialHash_remove (Some name) sh object
        = Inr (sh\<lparr>console := console sh @ [notInSpatialHash name]\<rparr>))
   \<and> (SpatialHash_remove cn sh0 object = Inr sh \<longrightarrow>
      (\<exists>sh'. SpatialHash_remove (Some name) sh object = Inr sh'
         \<and> hash sh' = hash sh \<and> objects sh' = objects sh \<and> hitboxes sh' = hitboxes sh
         \<and> console sh' = console sh @ [notInSpatialHash name]))"
proof (intro conjI impI)
  assume "objects sh object = None"
  then show "SpatialHash_remove (Some name) sh object
      = Inr (sh\<lparr>console := console sh @ [notInSpatialHash name]\<rparr>)"
    by (simp add: SpatialHash_remove_def)
next
  assume "SpatialHash_remove cn sh0 object = Inr sh"
  then have "objects sh object = None"
    by (rule objects_SpatialHash_remove)
  then show "\<exists>sh'. SpatialHash_remove (Some name) sh object = Inr sh'
         \<and> hash sh' = hash sh \<and> objects sh' = objects sh \<and> hitboxes sh' = hitboxes sh
         \<and> console sh' = console sh @ [notInSpatialHash name]"
    by (simp add: SpatialHash_remove_def)
qed

text \<open>
  C8. For an object without a constructor the message of the untracked branch cannot be
  built: \<open>remove\<close> raises a \<open>TypeError\<close> and nothing is logged. So it is for an object
  that was never added, and for the second of two calls of \<open>remove\<close> after an \<open>add\<close>,
  the first of which returns normally.
\<close>

theorem remove_untracked_without_constructor_raises:
  "SpatialHash_remove None (SpatialHash 64) 7 = Inl TypeError
   \<and> (\<exists>sh. SpatialHash_remove None (SpatialHash_add (SpatialHash 64) 7 0 0 10 10) 7 = Inr sh
        \<and> SpatialHash_remove None sh 7 = Inl TypeError)"
proof -
  have "SpatialHash_remove None (SpatialHash 64) 7 = Inl TypeError"
    by (simp add: SpatialHash_remove_def)
  moreover have r: "reachable (SpatialHash_add (SpatialHash 64) 7 0 0 10 10)"
    by (rule reachable_add [OF reachable_new]) simp
  have "objectCells (SpatialHash 64) 7 = []"
    by (simp add: objectCells_def)
  then have "objectCells (SpatialHash_add (SpatialHash 64) 7 0 0 10 10) 7 = [(0, 0)]"
    by (simp add: objectCells_SpatialHash_add coveredCells_example1)
  then have tracked: "objects (SpatialHash_add (SpatialHash 64) 7 0 0 10 10) 7 \<noteq> None"
    by (auto simp: objectCells_def split: option.splits)
  from SpatialHash_remove_consistent [OF reachable_consistent [OF r], of 7 None] tracked
  obtain sh where
    sh: "SpatialHash_remove None (SpatialHash_add (SpatialHash 64) 7 0 0 10 10) 7 = Inr sh"
      "objects sh 7 = None"
    by blast
  from sh(2) have "SpatialHash_remove None sh 7 = Inl TypeError"
    by (simp add: SpatialHash_remove_def)
  ultimately show ?thesis
    using sh(1) by blast
qed

section \<open>Coverage of queries\<close>

text \<open>
  C2. In a hash built through \<open>add\<close>, \<open>remove\<close> and \<open>update\<close> (with \<open>add\<close> applied to
  untracked objects only) and of positive cell size, an object stored with rectangle
  \<open>r\<close> is returned by every query whose rectangle intersects \<open>r\<close>. A query collects
  whole grid cells, so a rectangle disjoint from every stored rectangle can still share
  a cell with one and get its object; a query whose covering cells contain no covering
  cell of any stored rectangle returns the empty list.
\<close>

theorem query_coverage:
  assumes "reachable sh" and "0 < size_cell sh"
  shows "(\<forall>object r. hitboxes sh object = Some r \<and> rectsIntersect r (x, y, w, h)
            \<longrightarrow> object \<in> set (SpatialHash_query sh x y w h))
       \<and> ((\<forall>object r. hitboxes sh object = Some r \<longrightarrow>
              (\<forall>key \<in> set (hitboxCells (size_cell sh) r).
                 key \<notin> set (coveredCells (size_cell sh) x y w h)))
            \<longrightarrow> SpatialHash_query sh x y w h = [])"
proof (intro conjI allI impI)
  fix object r
  assume "hitboxes sh object = Some r \<and> rectsIntersect r (x, y, w, h)"
  then show "object \<in> set (SpatialHash_query sh x y w h)"
    using query_contains [OF reachable_consistent [OF assms(1)] assms(2)] by blast
next
  assume a: "\<forall>object r. hitboxes sh object = Some r \<longrightarrow>
              (\<forall>key \<in> set (hitboxCells (size_cell sh) r).
                 key \<notin> set (coveredCells (size_cell sh) x y w h))"
  show "SpatialHash_query sh x y w h = []"
  proof (rule ccontr)
    assume "SpatialHash_query sh x y w h \<noteq> []"
    then obtain object where "object \<in> set (SpatialHash_query sh x y w h)"
      by (cases "SpatialHash_query sh x y w h") auto
    from query_member_tracked [OF reachable_consistent [OF assms(1)] this] a
    show False by blast
  qed
qed

text \<open>
  The rectangle \<open>(20, 20, 5, 5)\<close> is disjoint from the only stored rectangle
  \<open>(0, 0, 10, 10)\<close>, both lie in cell \<open>(0, 0)\<close> of a grid of size 64, and the query
  returns the stored object.
\<close>

theorem query_disjoint_rectangle_counterexample:
  "\<not> rectsIntersect (0, 0, 10, 10) (20, 20, 5, 5)
   \<and> SpatialHash_query (SpatialHash_add (SpatialHash 64) 7 0 0 10 10) 20 20 5 5 = [7]"
  by (simp add: rectsIntersect_def SpatialHash_query_def cellObjects_SpatialHash_add
      coveredCells_example1 coveredCells_example2)

theorem query_coverage_witness:
  "7 \<in> set (SpatialHash_query (SpatialHash_add (SpatialHash 64) 7 0 0 10 10) 5 5 20 20)
   \<and> SpatialHash_query (SpatialHash_add (SpatialHash 64) 7 0 0 10 10) 200 0 10 10 = []"
proof -
  let ?sh = "SpatialHash_add (SpatialHash 64) 7 0 0 10 10"
  have r: "reachable ?sh"
    by (rule reachable_add [OF reachable_new]) simp
  have sz: "0 < size_cell ?sh"
    by simp
  have hb: "hitboxes ?sh = [7 \<mapsto> (0, 0, 10, 10)]"
    by simp
  have i: "rectsIntersect (0, 0, 10, 10) (5, 5, 20, 20)"
    by (simp add: rectsIntersect_def)
  have szv: "size_cell ?sh = 64"
    by simp
  have d: "\<forall>object r. hitboxes ?sh object = Some r \<longrightarrow>
      (\<forall>key \<in> set (hitboxCells (size_cell ?sh) r).
          key \<notin> set (coveredCells (size_cell ?sh) 200 0 10 10))"
    by (simp add: hb szv hitboxCells_def coveredCells_example1 coveredCells_example4)
  from query_coverage [OF r sz, of 5 5 20 20] hb i
  have "7 \<in> set (SpatialHash_query ?sh 5 5 20 20)"
    by simp
  moreover from query_coverage [OF r sz, of 200 0 10 10] d
  have "SpatialHash_query ?sh 200 0 10 10 = []"
    by blast
  ultimately show ?thesis by blast
qed

section \<open>Multiplicity of query results\<close>

text \<open>
  C10. \<open>query\<close> concatenates the cell arrays without removing duplicates. In a hash of
  positive cell size built through \<open>add\<close>, \<open>remove\<close> and \<open>update\<close>, where \<open>add\<close> is
  applied to untracked objects only, an object occurs in the result once for every cell
  of its stored hitbox that is among the cells covered by the queried rectangle.
\<close>

theorem query_multiplicity:
  assumes "reachable sh" and "0 < size_cell sh" and "hitboxes sh object = Some r"
  shows "count_list (SpatialHash_query sh x y w h) object
       = length (filter (\<lambda>key. key \<in> set (coveredCells (size_cell sh) x y w h))
            (hitboxCells (size_cell sh) r))"
  using count_query [OF reachable_consistent [OF assms(1)] assms(3), of x y w h]
    length_filter_mem_commute [OF distinct_hitboxCells distinct_coveredCells]
  by simp

text \<open>
  The rectangle \<open>(0, 0, 100, 10)\<close> covers two cells of a grid of size 64; the query over
  the same rectangle returns the object twice.
\<close>

theorem query_multiplicity_witness:
  "count_list (SpatialHash_query (SpatialHash_add (SpatialHash 64) 7 0 0 100 10) 0 0 100 10) 7 = 2"
proof -
  let ?sh = "SpatialHash_add (SpatialHash 64) 7 0 0 100 10"
  have r: "reachable ?sh"
    by (rule reachable_add [OF reachable_new]) simp
  have sz: "0 < size_cell ?sh"
    by simp
  have hb: "hitboxes ?sh 7 = Some (0, 0, 100, 10)"
    by simp
  have szv: "size_cell ?sh = 64"
    by simp
  show ?thesis
    using query_multiplicity [OF r sz hb, of 0 0 100 10]
    by (simp add: szv hitboxCells_def coveredCells_example3)
qed

text \<open>
  \<open>add\<close> has no guard against an object that the hash already holds. After two calls
  of \<open>add\<close> for one object with the rectangle \<open>(0, 0, 10, 10)\<close> the stored hitbox covers
  one cell, which the query over that rectangle covers too, and the query returns the
  object twice.
\<close>

theorem query_multiplicity_added_twice_counterexample:
  "hitboxes (SpatialHash_add (SpatialHash_add (SpatialHash 64) 7 0 0 10 10) 7 0 0 10 10) 7
     = Some (0, 0, 10, 10)
   \<and> length (filter (\<lambda>key. key \<in> set (coveredCells 64 0 0 10 10))
        (hitboxCells 64 (0, 0, 10, 10))) = 1
   \<and> SpatialHash_query
        (SpatialHash_add (SpatialHash_add (SpatialHash 64) 7 0 0 10 10) 7 0 0 10 10) 0 0 10 10
      = [7, 7]"
  by (simp add: SpatialHash_query_def cellObjects_SpatialHash_add hitboxCells_def
      coveredCells_example1)

section \<open>Overlap and movement\<close>

lemma aabb_at_2D [simp]:
  "aabb_at (Aabb2D a0 a1 a2 a3) 0 = a0"
  "aabb_at (Aabb2D a0 a1 a2 a3) (Suc 0) = a1"
  "aabb_at (Aabb2D a0 a1 a2 a3) 2 = a2"
  "aabb_at (Aabb2D a0 a1 a2 a3) 3 = a3"
  unfolding aabb_at_def by (simp_all add: eval_nat_numeral)

lemma aabb_at_3D [simp]:
  "aabb_at (Aabb3D a0 a1 a2 a3 a4 a5) 0 = a0"
  "aabb_at (Aabb3D a0 a1 a2 a3 a4 a5) (Suc 0) = a1"
  "aabb_at (Aabb3D a0 a1 a2 a3 a4 a5) 2 = a2"
  "aabb_at (Aabb3D a0 a1 a2 a3 a4 a5) 3 = a3"
  "aabb_at (Aabb3D a0 a1 a2 a3 a4 a5) 4 = a4"
  "aabb_at (Aabb3D a0 a1 a2 a3 a4 a5) 5 = a5"
  unfolding aabb_at_def by (simp_all add: eval_nat_numeral)

lemma aabb_length_simps [simp]:
  "aabb_length (Aabb2D a0 a1 a2 a3) = 4"
  "aabb_length (Aabb3D a0 a1 a2 a3 a4 a5) = 6"
  by (simp_all add: aabb_length_def)

lemma aabb2D_simps [simp]:
  "aabb2D (Aabb2D a0 a1 a2 a3) = Aabb2D a0 a1 a2 a3"
  "aabb2D (Aabb3D a0 a1 a2 a3 a4 a5) = Aabb2D a0 a1 a3 a4"
  by (simp_all add: aabb2D_def)

lemma sweepX_zero: "round (dx * 1000) = 0 \<Longrightarrow> sweepX sc this dx stepSize = Some sc"
  by (simp add: sweepX.simps)

lemma sweepY_zero: "round (dy * 1000) = 0 \<Longrightarrow> sweepY sc this dy stepSize = Some sc"
  by (simp add: sweepY.simps)


lemma updateDepth_fields [simp]:
  "heap (updateDepth sc thing) = heap sc"
  "things (updateDepth sc thing) = things sc"
  "spatialHash (updateDepth sc thing) = spatialHash sc"
  "namedThings (updateDepth sc thing) = namedThings sc"
  by (simp_all add: updateDepth_def Let_def)

lemma Scene_addThing_fields [simp]:
  "heap (Scene_addThing sc thing) = heap sc"
  "things (Scene_addThing sc thing) = things sc @ [thing]"
  "spatialHash (Scene_addThing sc thing) =
     (case thingXywh (heap sc thing) of (x, y, w, h) \<Rightarrow>
        SpatialHash_add (spatialHash sc) thing x y w h)"
  by (simp_all add: Scene_addThing_def Let_def split: prod.splits)

lemma Scene_fields [simp]:
  "heap (Scene h) = h"
  "things (Scene h) = []"
  "layers (Scene h) = []"
  "layerOrder (Scene h) = []"
  "depthMemory (Scene h) = Map.empty"
  "spatialHash (Scene h) = SpatialHash 64"
  "namedThings (Scene h) = []"
  by (simp_all add: Scene_def)

lemma setThing_fields [simp]:
  "heap (setThing sc this t) = (heap sc)(this := t)"
  "things (setThing sc this t) = things sc"
  "layers (setThing sc this t) = layers sc"
  "layerOrder (setThing sc this t) = layerOrder sc"
  "depthMemory (setThing sc this t) = depthMemory sc"
  "spatialHash (setThing sc this t) = spatialHash sc"
  "namedThings (setThing sc this t) = namedThings sc"
  by (simp_all add: setThing_def)

lemma checkAabbIntersection_2D_mover:
  assumes "aabb2D bb = Aabb2D b0 b1 b2 b3"
  shows "checkAabbIntersection (Aabb2D a0 a1 a2 a3) bb p q \<longleftrightarrow>
     a0 + px p \<le> b2 + px q \<and> a1 + py p \<le> b3 + py q \<and>
     b0 + px q \<le> a2 + px p \<and> b1 + py q \<le> a3 + py p"
  by (simp add: checkAabbIntersection_def checkAabbIntersection2D_def assms Let_def)

lemma checkCollision_solid_in_reach:
  assumes "b \<noteq> m"
    and "aabb (heap sc m) = Aabb2D a0 a1 a2 a3"
    and "aabb2D (aabb (heap sc b)) = Aabb2D b0 b1 b2 b3"
    and "isSolid (heap sc b)" and "isOverlapEnabled (heap sc b)" and "\<not> isDead (heap sc b)"
    and "consistent (spatialHash sc)" and "0 < size_cell (spatialHash sc)"
    and "hitboxes (spatialHash sc) b = Some (thingXywh (heap sc b))"
    and "a0 \<le> a2" and "a1 \<le> a3" and "b0 \<le> b2" and "b1 \<le> b3"
    and "rangesMeet (x + a0) (x + a2)
           (px (position (heap sc b)) + b0) (px (position (heap sc b)) + b2)"
    and "rangesMeet (y + a1) (y + a3)
           (py (position (heap sc b)) + b1) (py (position (heap sc b)) + b3)"
  shows "checkCollision sc m x y z"
proof -
  let ?B = "heap sc b"
  have box: "thingXywh ?B =
      (b0 + px (position ?B), b1 + py (position ?B), b2 - b0, b3 - b1)"
    by (simp add: thingXywh_def aabbToXywh_def assms(3))
  have "rectsIntersect (thingXywh ?B) (x + a0, y + a1, a2 - a0, a3 - a1)"
    using assms(10-15) by (simp add: box rectsIntersect_def rangesMeet_def)
  from query_contains [OF assms(7) assms(8) assms(9) this]
  have near: "b \<in> set (getThingsNearXywh sc (x + a0) (y + a1) (a2 - a0) (a3 - a1))"
    by (simp add: getThingsNearXywh_def)
  have "checkAabbIntersection (Aabb2D a0 a1 a2 a3) (aabb ?B)
      \<lparr>px = x, py = y, pz = z\<rparr> (position ?B)"
    using assms(14,15) unfolding checkAabbIntersection_2D_mover [OF assms(3)] rangesMeet_def
    by simp
  then have "isOverlapping sc m b x y z"
    using assms(1,2,5,6) by (simp add: isOverlapping_def)
  with near have "b \<in> set (getAllOverlaps sc m x y z)"
    by (simp add: getAllOverlaps_def assms(2))
  with assms(4) show ?thesis
    by (auto simp: checkCollision_def list_ex_iff)
qed

lemma sign_simps [simp]: "sign 0 = 0" "0 < x \<Longrightarrow> sign x = 1" "x < 0 \<Longrightarrow> sign x = - 1"
  by (simp_all add: sign_def)

lemma clearContactDirections_fields [simp]:
  "position (clearContactDirections t) = position t"
  "velocity (clearContactDirections t) = velocity t"
  "aabb (clearContactDirections t) = aabb t"
  "isSolid (clearContactDirections t) = isSolid t"
  "isDead (clearContactDirections t) = isDead t"
  "isOverlapEnabled (clearContactDirections t) = isOverlapEnabled t"
  by (simp_all add: clearContactDirections_def)

lemma move_blocked_result:
  assumes "b \<noteq> m"
    and "aabb (heap sc m) = Aabb2D a0 a1 a2 a3" and "a0 \<le> a2" and "a1 \<le> a3"
    and "aabb2D (aabb (heap sc b)) = Aabb2D b0 b1 b2 b3" and "b0 \<le> b2" and "b1 \<le> b3"
    and "isSolid (heap sc b)" and "isOverlapEnabled (heap sc b)" and "\<not> isDead (heap sc b)"
    and "reachable (spatialHash sc)" and "0 < size_cell (spatialHash sc)"
    and "hitboxes (spatialHash sc) b = Some (thingXywh (heap sc b))"
    and "px (position (heap sc m)) + a2 = px (position (heap sc b)) + b0"
    and "rangesMeet (py (position (heap sc m)) + a1) (py (position (heap sc m)) + a3)
           (py (position (heap sc b)) + b1) (py (position (heap sc b)) + b3)"
    and "1 \<le> (a2 - a0) + (b2 - b0)"
  shows "Thing_move sc m 5 0 1 =
     Some (setThing sc m (blockedX (clearContactDirections (heap sc m)) 5))"
proof -
  let ?M = "heap sc m" and ?B = "heap sc b"
  define sc0 where "sc0 = setThing sc m (clearContactDirections ?M)"
  have M0: "heap sc0 m = clearContactDirections ?M"
    and B0: "heap sc0 b = ?B"
    and sh0: "spatialHash sc0 = spatialHash sc"
    using assms(1) by (simp_all add: sc0_def)
  have box0: "aabb (heap sc0 m) = Aabb2D a0 a1 a2 a3"
    by (simp add: M0 assms(2))
  have mx: "rangesMeet (px (position ?M) + 1 + a0) (px (position ?M) + 1 + a2)
      (px (position (heap sc0 b)) + b0) (px (position (heap sc0 b)) + b2)"
    using assms(3,6,14,16) by (simp add: rangesMeet_def B0)
  have my: "rangesMeet (py (position ?M) + a1) (py (position ?M) + a3)
      (py (position (heap sc0 b)) + b1) (py (position (heap sc0 b)) + b3)"
    using assms(15) by (simp add: B0)
  have b2d: "aabb2D (aabb (heap sc0 b)) = Aabb2D b0 b1 b2 b3"
    using assms(5) by (simp add: B0)
  have flags: "isSolid (heap sc0 b)" "isOverlapEnabled (heap sc0 b)" "\<not> isDead (heap sc0 b)"
    using assms(8-10) by (simp_all add: B0)
  have cons: "consistent (spatialHash sc0)" and sz: "0 < size_cell (spatialHash sc0)"
    and hb: "hitboxes (spatialHash sc0) b = Some (thingXywh (heap sc0 b))"
    using assms(11-13) by (simp_all add: B0 sh0 reachable_consistent)
  have hit: "checkCollision sc0 m (px (position ?M) + 1) (py (position ?M))
      (pz (position ?M))"
    by (rule checkCollision_solid_in_reach [OF assms(1) box0 b2d flags cons sz hb
          assms(3) assms(4) assms(6) assms(7) mx my])
  have "sweepX sc0 m 5 1 = Some (setThing sc0 m (blockedX (clearContactDirections ?M) 5))"
    using hit by (subst sweepX.simps) (simp add: Let_def M0)
  then show ?thesis
    by (simp add: Thing_move_def sc0_def sweepY_zero setThing_def)
qed




lemma blockedX_right_fields:
  "px (position (blockedX t 5)) = real_of_int (round (px (position t))) - 1 / 10000"
  "py (position (blockedX t 5)) = py (position t)"
  "pz (position (blockedX t 5)) = pz (position t)"
  "fst (velocity (blockedX t 5)) = 0"
  "right (contactDirections (blockedX t 5))"
  "aabb (blockedX t 5) = aabb t"
  by (simp_all add: blockedX_def Let_def movementPushback_def)

lemma objects_foldl_addToCell_other:
  "object' \<noteq> object \<Longrightarrow> objects (foldl (addToCell object) sh keys) object' = objects sh object'"
  by (induction keys arbitrary: sh) (simp_all add: addToCell_def)

lemma objects_SpatialHash_add_other:
  "object' \<noteq> object \<Longrightarrow>
   objects (SpatialHash_add sh object x y w h) object' = objects sh object'"
  by (simp add: SpatialHash_add_def objects_foldl_addToCell_other)

lemma adjacentThings_simps [simp]:
  "adjacentThings x 0 = Thing\<lparr>position := \<lparr>px = x, py = 0, pz = None\<rparr>, velocity := (5, 0),
                  aabb := Aabb2D (- 8) (- 8) 8 8\<rparr>"
  "adjacentThings x (Suc 0) = Thing\<lparr>position := \<lparr>px = x + 16, py = 0, pz = None\<rparr>,
                  aabb := Aabb2D (- 8) (- 8) 8 8, isSolid := True\<rparr>"
  by (simp_all add: adjacentThings_def)

lemma adjacentScene_facts:
  "heap (adjacentScene x) = adjacentThings x"
  "reachable (spatialHash (adjacentScene x))"
  "size_cell (spatialHash (adjacentScene x)) = 64"
  "hitboxes (spatialHash (adjacentScene x)) (Suc 0) = Some (8 + x, - 8, 16, 16)"
proof -
  show "heap (adjacentScene x) = adjacentThings x"
    by (simp add: adjacentScene_def)
  have sh: "spatialHash (adjacentScene x) =
      SpatialHash_add (SpatialHash_add (SpatialHash 64) 0 (x - 8) (- 8) 16 16) 1 (8 + x) (- 8) 16 16"
    by (simp add: adjacentScene_def thingXywh_def aabbToXywh_def Thing_def)
  have "reachable (SpatialHash_add (SpatialHash 64) 0 (x - 8) (- 8) 16 16)"
    by (rule reachable_add [OF reachable_new]) simp
  then show "reachable (spatialHash (adjacentScene x))"
    unfolding sh by (rule reachable_add) (simp add: objects_SpatialHash_add_other)
  show "size_cell (spatialHash (adjacentScene x)) = 64"
    by (simp add: sh)
  show "hitboxes (spatialHash (adjacentScene x)) (Suc 0) = Some (8 + x, - 8, 16, 16)"
    by (simp add: sh)
qed

lemma pairThings_simps [simp]:
  "pairThings box z solid gap 0 = Thing\<lparr>position := \<lparr>px = 0, py = 0, pz = z\<rparr>, aabb := box\<rparr>"
  "pairThings box z solid gap (Suc 0) =
     Thing\<lparr>position := \<lparr>px = 16 + gap, py = 0, pz = z\<rparr>, aabb := box, isSolid := solid\<rparr>"
  by (simp_all add: pairThings_def)





lemma round_one_half: "round (1 / 2 :: real) = 1"
  by (simp add: round_def)

text \<open>With a positive step size both loops of \<open>move\<close> end, so \<open>move\<close> returns.\<close>

lemma sweep_measure:
  assumes "0 < s" and "dx \<noteq> 0"
  shows "\<bar>dx - sign dx * min \<bar>dx\<bar> s\<bar> = \<bar>dx\<bar> - min \<bar>dx\<bar> s"
    and "nat \<lceil>(\<bar>dx\<bar> - min \<bar>dx\<bar> s) / s\<rceil> < nat \<lceil>\<bar>dx\<bar> / s\<rceil>"
proof -
  show "\<bar>dx - sign dx * min \<bar>dx\<bar> s\<bar> = \<bar>dx\<bar> - min \<bar>dx\<bar> s"
    using assms by (cases "0 < dx") (auto simp: sign_def min_def)
  have pos: "0 < \<bar>dx\<bar> / s"
    using assms by simp
  then have c1: "1 \<le> \<lceil>\<bar>dx\<bar> / s\<rceil>"
    by (simp add: less_ceiling_iff)
  show "nat \<lceil>(\<bar>dx\<bar> - min \<bar>dx\<bar> s) / s\<rceil> < nat \<lceil>\<bar>dx\<bar> / s\<rceil>"
  proof (cases "\<bar>dx\<bar> \<le> s")
    case True
    then show ?thesis
      using c1 by (simp add: min_def)
  next
    case False
    then have "(\<bar>dx\<bar> - min \<bar>dx\<bar> s) / s = \<bar>dx\<bar> / s - 1"
      using assms(1) by (simp add: min_def diff_divide_distrib)
    then have "\<lceil>(\<bar>dx\<bar> - min \<bar>dx\<bar> s) / s\<rceil> = \<lceil>\<bar>dx\<bar> / s\<rceil> - 1"
      by simp
    then show ?thesis
      using c1 by simp
  qed
qed

lemma sweepX_returns:
  assumes "0 < stepSize"
  shows "\<exists>sc'. sweepX sc this dx stepSize = Some sc'"
proof (induction "nat \<lceil>\<bar>dx\<bar> / stepSize\<rceil>" arbitrary: sc dx rule: less_induct)
  case less
  show ?case
  proof (cases "round (dx * 1000) = 0")
    case True
    then show ?thesis
      by (simp add: sweepX_zero)
  next
    case False
    then have nz: "dx \<noteq> 0"
      by auto
    define step where "step = sign dx * min \<bar>dx\<bar> stepSize"
    define t where "t = heap sc this"
    show ?thesis
    proof (cases "checkCollision sc this (px (position t) + step) (py (position t))
        (pz (position t))")
      case True
      with False show ?thesis
        by (subst sweepX.simps) (simp add: Let_def step_def t_def)
    next
      case free: False
      have "nat \<lceil>\<bar>dx - step\<bar> / stepSize\<rceil> < nat \<lceil>\<bar>dx\<bar> / stepSize\<rceil>"
        using sweep_measure [OF assms nz] by (simp add: step_def)
      from less.hyps [OF this] obtain sc' where
        "sweepX (setThing sc this (t\<lparr>position := (position t)\<lparr>px := px (position t) + step\<rparr>\<rparr>))
           this (dx - step) stepSize = Some sc'"
        by blast
      with False free show ?thesis
        by (subst sweepX.simps) (simp add: Let_def step_def t_def)
    qed
  qed
qed

lemma sweepY_returns:
  assumes "0 < stepSize"
  shows "\<exists>sc'. sweepY sc this dy stepSize = Some sc'"
proof (induction "nat \<lceil>\<bar>dy\<bar> / stepSize\<rceil>" arbitrary: sc dy rule: less_induct)
  case less
  show ?case
  proof (cases "round (dy * 1000) = 0")
    case True
    then show ?thesis
      by (simp add: sweepY_zero)
  next
    case False
    then have nz: "dy \<noteq> 0"
      by auto
    define step where "step = sign dy * min \<bar>dy\<bar> stepSize"
    define t where "t = heap sc this"
    show ?thesis
    proof (cases "checkCollision sc this (px (position t)) (py (position t) + step)
        (pz (position t))")
      case True
      with False show ?thesis
        by (subst sweepY.simps) (simp add: Let_def step_def t_def)
    next
      case free: False
      have "nat \<lceil>\<bar>dy - step\<bar> / stepSize\<rceil> < nat \<lceil>\<bar>dy\<bar> / stepSize\<rceil>"
        using sweep_measure [OF assms nz] by (simp add: step_def)
      from less.hyps [OF this] obtain sc' where
        "sweepY (setThing sc this (t\<lparr>position := (position t)\<lparr>py := py (position t) + step\<rparr>\<rparr>))
           this (dy - step) stepSize = Some sc'"
        by blast
      with False free show ?thesis
        by (subst sweepY.simps) (simp add: Let_def step_def t_def)
    qed
  qed
qed

lemma Thing_move_returns:
  assumes "0 < stepSize"
  shows "\<exists>sc'. Thing_move sc this dx dy stepSize = Some sc'"
proof -
  from sweepX_returns [OF assms] obtain sc1 where
    "sweepX (setThing sc this (clearContactDirections (heap sc this))) this dx stepSize = Some sc1"
    by blast
  with sweepY_returns [OF assms, of sc1 this dy] show ?thesis
    by (simp add: Thing_move_def)
qed

section \<open>The frame driver\<close>

lemma updateHandler_calls [simp]:
  "updateHandlerCalls (snd (updateHandler e g)) = updateHandlerCalls g + 1"
  by (simp add: updateHandler_def handleCanvasResize_def handleTabbingInAndOut_def
      handleSceneChange_def loseFocus_def gainFocus_def game_update_def Let_def)

lemma updateHandler_result [simp]: "fst (updateHandler e g) = hasFocus e"
  by (simp add: updateHandler_def handleCanvasResize_def handleTabbingInAndOut_def
      handleSceneChange_def loseFocus_def gainFocus_def game_update_def Let_def)

lemma updateHandler_isFocused [simp]: "isFocused (snd (updateHandler e g)) = hasFocus e"
  by (simp add: updateHandler_def handleCanvasResize_def handleTabbingInAndOut_def
      handleSceneChange_def loseFocus_def gainFocus_def game_update_def Let_def)

lemma updateHandler_keeps [simp]:
  "isFramerateUncapped (snd (updateHandler e g)) = isFramerateUncapped g"
  "sceneDraws (snd (updateHandler e g)) = sceneDraws g"
  by (simp_all add: updateHandler_def handleCanvasResize_def handleTabbingInAndOut_def
      handleSceneChange_def loseFocus_def gainFocus_def game_update_def Let_def)

lemma updateHandler_accumulator:
  "accumulator (snd (updateHandler e g)) =
     (if sizeChanged e \<or> (hasFocus e \<and> \<not> isFocused g) \<or> scenePending e then 99 / 100
      else accumulator g)"
  by (simp add: updateHandler_def handleCanvasResize_def handleTabbingInAndOut_def
      handleSceneChange_def loseFocus_def gainFocus_def game_update_def Let_def)

lemma drain_counts:
  "drain env frameTime g n r = (g', n', r') \<Longrightarrow>
   n \<le> n' \<and> (n \<le> 5 \<longrightarrow> n' \<le> 5)
   \<and> updateHandlerCalls g' = updateHandlerCalls g + (n' - n)
   \<and> (r' \<longleftrightarrow> r \<or> (\<exists>k. n \<le> k \<and> k < n' \<and> hasFocus (env k)))
   \<and> isFramerateUncapped g' = isFramerateUncapped g
   \<and> sceneDraws g' = sceneDraws g"
proof (induction env frameTime g n r rule: drain.induct)
  case (1 env frameTime g n r)
  show ?case
  proof (cases "accumulator g \<ge> 1 \<and> n < 5")
    case False
    with "1.prems" show ?thesis by auto
  next
    case True
    obtain rr g1 where u: "updateHandler (env n) g = (rr, g1)"
      by (cases "updateHandler (env n) g")
    let ?g2 = "g1\<lparr>gameTime := frameTime, accumulator := accumulator g1 - 1\<rparr>"
    have rec: "drain env frameTime ?g2 (n + 1) (rr \<or> r) = (g', n', r')"
      using "1.prems" True u by (simp add: drain.simps [of env frameTime g n r])
    from "1.IH" [OF True u [symmetric] rec]
    have ih: "n + 1 \<le> n'" "n + 1 \<le> 5 \<longrightarrow> n' \<le> 5"
      "updateHandlerCalls g' = updateHandlerCalls ?g2 + (n' - (n + 1))"
      "r' \<longleftrightarrow> (rr \<or> r) \<or> (\<exists>k. n + 1 \<le> k \<and> k < n' \<and> hasFocus (env k))"
      "isFramerateUncapped g' = isFramerateUncapped ?g2"
      "sceneDraws g' = sceneDraws ?g2"
      by simp_all
    have g1: "updateHandlerCalls g1 = updateHandlerCalls g + 1" "rr = hasFocus (env n)"
      "isFramerateUncapped g1 = isFramerateUncapped g" "sceneDraws g1 = sceneDraws g"
      using updateHandler_calls [of "env n" g] updateHandler_result [of "env n" g]
        updateHandler_keeps [of "env n" g] by (simp_all add: u)
    have ex: "(\<exists>k. n \<le> k \<and> k < n' \<and> hasFocus (env k)) \<longleftrightarrow>
        hasFocus (env n) \<or> (\<exists>k. n + 1 \<le> k \<and> k < n' \<and> hasFocus (env k))"
    proof
      assume "\<exists>k. n \<le> k \<and> k < n' \<and> hasFocus (env k)"
      then obtain k where k: "n \<le> k" "k < n'" "hasFocus (env k)"
        by blast
      show "hasFocus (env n) \<or> (\<exists>k. n + 1 \<le> k \<and> k < n' \<and> hasFocus (env k))"
      proof (cases "k = n")
        case True
        with k show ?thesis by simp
      next
        case False
        with k have "n + 1 \<le> k" by simp
        with k show ?thesis by blast
      qed
    next
      assume "hasFocus (env n) \<or> (\<exists>k. n + 1 \<le> k \<and> k < n' \<and> hasFocus (env k))"
      then show "\<exists>k. n \<le> k \<and> k < n' \<and> hasFocus (env k)"
      proof
        assume "hasFocus (env n)"
        with ih(1) show ?thesis by (intro exI [of _ n]) simp
      next
        assume "\<exists>k. n + 1 \<le> k \<and> k < n' \<and> hasFocus (env k)"
        then obtain k where "n + 1 \<le> k" "k < n'" "hasFocus (env k)" by blast
        then show ?thesis by (intro exI [of _ k]) simp
      qed
    qed
    show ?thesis
      using ih g1 True ex by auto
  qed
qed

lemma drain_accumulator_nonneg:
  "drain env frameTime g n r = (g', n', r') \<Longrightarrow>
   0 \<le> accumulator g \<Longrightarrow>
   (\<forall>k. n \<le> k \<and> k < 5 \<longrightarrow>
      \<not> sizeChanged (env k) \<and> \<not> scenePending (env k) \<and>
      (hasFocus (env k) \<longrightarrow> (if k = n then isFocused g else hasFocus (env (k - 1))))) \<Longrightarrow>
   0 \<le> accumulator g'"
proof (induction env frameTime g n r rule: drain.induct)
  case (1 env frameTime g n r)
  show ?case
  proof (cases "accumulator g \<ge> 1 \<and> n < 5")
    case False
    with "1.prems" show ?thesis by auto
  next
    case True
    obtain rr g1 where u: "updateHandler (env n) g = (rr, g1)"
      by (cases "updateHandler (env n) g")
    let ?g2 = "g1\<lparr>gameTime := frameTime, accumulator := accumulator g1 - 1\<rparr>"
    have rec: "drain env frameTime ?g2 (n + 1) (rr \<or> r) = (g', n', r')"
      using "1.prems"(1) True u by (simp add: drain.simps [of env frameTime g n r])
    have quiet: "\<not> sizeChanged (env n)" "\<not> scenePending (env n)"
      "hasFocus (env n) \<longrightarrow> isFocused g"
      using "1.prems"(3) True by auto
    have acc: "accumulator g1 = accumulator g" and foc: "isFocused g1 = hasFocus (env n)"
      using updateHandler_accumulator [of "env n" g] updateHandler_isFocused [of "env n" g]
        quiet by (auto simp: u)
    have a2: "0 \<le> accumulator ?g2"
      using True acc by simp
    have q2: "\<forall>k. n + 1 \<le> k \<and> k < 5 \<longrightarrow>
      \<not> sizeChanged (env k) \<and> \<not> scenePending (env k) \<and>
      (hasFocus (env k) \<longrightarrow> (if k = n + 1 then isFocused ?g2 else hasFocus (env (k - 1))))"
    proof (intro allI impI)
      fix k assume k: "n + 1 \<le> k \<and> k < 5"
      then have "n \<le> k \<and> k < 5" "k \<noteq> n" by simp_all
      with "1.prems"(3) have "\<not> sizeChanged (env k) \<and> \<not> scenePending (env k) \<and>
          (hasFocus (env k) \<longrightarrow> hasFocus (env (k - 1)))"
        by auto
      then show "\<not> sizeChanged (env k) \<and> \<not> scenePending (env k) \<and>
          (hasFocus (env k) \<longrightarrow> (if k = n + 1 then isFocused ?g2 else hasFocus (env (k - 1))))"
        using foc by auto
    qed
    from "1.IH" [OF True u [symmetric] rec a2 q2] show ?thesis .
  qed
qed

lemma jsRemainder_one_nonneg:
  assumes "0 \<le> a"
  shows "0 \<le> jsRemainder a 1 \<and> jsRemainder a 1 < 1"
proof -
  have "jsRemainder a 1 = a - real_of_int \<lfloor>a\<rfloor>"
    using assms by (simp add: jsRemainder_def)
  then show ?thesis
    by (simp add: floor_correct) linarith
qed

lemma frame_unfold:
  assumes "drain env frameTime
      (if impactFrameCount g > 0
       then g\<lparr>previousFrameTime := Some frameTime,
              startGameTime :=
                (case startGameTime g of
                   None \<Rightarrow> Some frameTime
                 | Some s \<Rightarrow> if s = 0 then Some frameTime else Some s),
              impactFrameCount := impactFrameCount g - delta\<rparr>
       else g\<lparr>previousFrameTime := Some frameTime,
              startGameTime :=
                (case startGameTime g of
                   None \<Rightarrow> Some frameTime
                 | Some s \<Rightarrow> if s = 0 then Some frameTime else Some s),
              accumulator := accumulator g + delta\<rparr>) 0 False = (g3, n, rerender)"
    and "delta = (case previousFrameTime g of None \<Rightarrow> 0 | Some p \<Rightarrow> (frameTime - p) / 1000)
           * 60 * updateSpeed g"
  shows "updateHandlerCalls (frame env focusAtDraw frameTime g) = updateHandlerCalls g3"
    and "accumulator (frame env focusAtDraw frameTime g) = jsRemainder (accumulator g3) 1"
    and "sceneExists (frame env focusAtDraw frameTime g) = sceneExists g3"
    and "sceneDraws (frame env focusAtDraw frameTime g) =
           sceneDraws g3 +
           (if (rerender \<or> isFramerateUncapped g3) \<and> focusAtDraw \<and> sceneExists g3 then 1 else 0)"
    and "rerender \<or> isFramerateUncapped g3 \<Longrightarrow>
           rawDelta (mouse (frame env focusAtDraw frameTime g)) = (0, 0)"
  using assms
  by (auto simp: frame_def Let_def game_draw_def split: if_splits)

lemma runningGame_fields [simp]:
  "previousFrameTime runningGame = Some 0"
  "updateSpeed runningGame = 1"
  "impactFrameCount runningGame = 0"
  "accumulator runningGame = 99 / 100"
  "isFocused runningGame"
  "sceneExists runningGame"
  "\<not> isFramerateUncapped runningGame"
  "updateHandlerCalls runningGame = 0"
  "sceneDraws runningGame = 0"
  by (simp_all add: runningGame_def initialGame_def)

lemma ceiling_neg_hundredth: "\<lceil>- (1 / 100) :: real\<rceil> = 0"
  by (rule ceiling_unique) simp_all

text \<open>After every callback the accumulator lies strictly between \<open>-1\<close> and 1.\<close>

lemma jsRemainder_one_range: "\<bar>jsRemainder a 1\<bar> < 1"
proof (cases "0 \<le> a")
  case True
  from jsRemainder_one_nonneg [OF this] show ?thesis by simp
next
  case False
  then have "jsRemainder a 1 = a - real_of_int \<lceil>a\<rceil>"
    by (simp add: jsRemainder_def)
  moreover have "real_of_int \<lceil>a\<rceil> - 1 < a" "a \<le> real_of_int \<lceil>a\<rceil>"
    by linarith+
  ultimately show ?thesis
    by simp
qed

lemma frame_accumulator_range: "\<bar>accumulator (frame env focusAtDraw frameTime g)\<bar> < 1"
proof -
  define delta where "delta = (case previousFrameTime g of None \<Rightarrow> 0
      | Some p \<Rightarrow> (frameTime - p) / 1000) * 60 * updateSpeed g"
  define g2 where "g2 =
      (if impactFrameCount g > 0
       then g\<lparr>previousFrameTime := Some frameTime,
              startGameTime :=
                (case startGameTime g of
                   None \<Rightarrow> Some frameTime
                 | Some s \<Rightarrow> if s = 0 then Some frameTime else Some s),
              impactFrameCount := impactFrameCount g - delta\<rparr>
       else g\<lparr>previousFrameTime := Some frameTime,
              startGameTime :=
                (case startGameTime g of
                   None \<Rightarrow> Some frameTime
                 | Some s \<Rightarrow> if s = 0 then Some frameTime else Some s),
              accumulator := accumulator g + delta\<rparr>)"
  obtain g3 n rerender where d: "drain env frameTime g2 0 False = (g3, n, rerender)"
    by (cases "drain env frameTime g2 0 False")
  from frame_unfold(2) [OF d [unfolded g2_def] delta_def, of focusAtDraw] show ?thesis
    by (simp add: jsRemainder_one_range)
qed

section \<open>The update pass of a scene\<close>

declare updateThings.simps [simp del]

lemma updateThings_unfold:
  "updateThings hk i sc =
     (if i < length (things sc)
      then
        (let thing = things sc ! i;
             sc1 = (if \<not> isDead (heap sc thing) \<and> \<not> isPaused (heap sc thing)
                    then sc\<lparr>heap := onUpdate hk thing sc\<rparr> else sc)
         in if isDead (heap sc1 thing)
            then
              (let sc2 = removeFromLayer (sc1\<lparr>heap := onDeath hk thing sc1\<rparr>) thing
               in case SpatialHash_remove (Some (className hk thing)) (spatialHash sc2) thing of
                    Inl e \<Rightarrow> Inl e
                  | Inr sh \<Rightarrow>
                      updateThings hk i
                        (sc2\<lparr>spatialHash := sh,
                             depthMemory := (depthMemory sc2)(thing := None),
                             things := take i (things sc2) @ drop (Suc i) (things sc2)\<rparr>))
            else
              (let sc2 = (if depthChanged sc1 thing then updateDepth sc1 thing else sc1)
               in case getHitbox (spatialHash sc2) thing of
                    None \<Rightarrow> Inl TypeError
                  | Some (xLast, yLast, wLast, hLast) \<Rightarrow>
                      (let t = heap sc2 thing
                       in if xLast \<noteq> px (position t) + aabb_at (aabb t) 0 \<or>
                             yLast \<noteq> py (position t) + aabb_at (aabb t) 1
                          then
                            (case thingXywh t of
                               (x, y, w, h) \<Rightarrow>
                                 (case SpatialHash_update (Some (className hk thing))
                                         (spatialHash sc2) thing x y w h of
                                    Inl e \<Rightarrow> Inl e
                                  | Inr sh \<Rightarrow>
                                      updateThings hk (i + 1) (sc2\<lparr>spatialHash := sh\<rparr>)))
                          else updateThings hk (i + 1) sc2)))
      else Inr sc)"
  by (subst updateThings.simps)
    (simp add: updateSlot_def callUpdate_def Let_def split: option.splits sum.splits prod.splits)

lemma removeFromCell_hitboxes:
  "removeFromCell object sh key = Inr sh' \<Longrightarrow> hitboxes sh' = hitboxes sh"
  by (auto simp: removeFromCell_def Let_def split: option.splits if_splits)

lemma removeFromCells_hitboxes:
  "removeFromCells object sh keys = Inr sh' \<Longrightarrow> hitboxes sh' = hitboxes sh"
proof (induction keys arbitrary: sh)
  case Nil
  then show ?case by simp
next
  case (Cons key keys)
  then show ?case
    by (auto split: sum.splits dest: removeFromCell_hitboxes)
qed

lemma removeFromCell_size:
  "removeFromCell object sh key = Inr sh' \<Longrightarrow> size_cell sh' = size_cell sh"
  by (auto simp: removeFromCell_def Let_def split: option.splits if_splits)

lemma removeFromCells_size:
  "removeFromCells object sh keys = Inr sh' \<Longrightarrow> size_cell sh' = size_cell sh"
proof (induction keys arbitrary: sh)
  case Nil
  then show ?case by simp
next
  case (Cons key keys)
  then show ?case
    by (auto split: sum.splits dest: removeFromCell_size)
qed

lemma SpatialHash_remove_size:
  "SpatialHash_remove cn sh object = Inr sh' \<Longrightarrow> size_cell sh' = size_cell sh"
  by (auto simp: SpatialHash_remove_def split: option.splits sum.splits
      dest: removeFromCells_size)

lemma SpatialHash_update_size:
  "SpatialHash_update cn sh object x y w h = Inr sh' \<Longrightarrow> size_cell sh' = size_cell sh"
  by (auto simp: SpatialHash_update_def split: sum.splits dest: SpatialHash_remove_size)

lemma SpatialHash_remove_frame:
  assumes "SpatialHash_remove cn sh object = Inr sh'"
  shows "hitboxes sh' object' = (if object' = object \<and> objects sh object \<noteq> None then None else hitboxes sh object')"
    and "objects sh' object' = (if object' = object then None else objects sh object')"
  using assms
  by (auto simp: SpatialHash_remove_def split: option.splits sum.splits
      dest: removeFromCells_hitboxes objects_removeFromCells)

lemma SpatialHash_update_frame:
  assumes "SpatialHash_update cn sh object x y w h = Inr sh'" and "object' \<noteq> object"
  shows "hitboxes sh' object' = hitboxes sh object'"
    and "objects sh' object' = objects sh object'"
proof -
  from assms(1) obtain sh1 where
    r: "SpatialHash_remove cn sh object = Inr sh1" and a: "sh' = SpatialHash_add sh1 object x y w h"
    by (auto simp: SpatialHash_update_def split: sum.splits)
  show "hitboxes sh' object' = hitboxes sh object'"
    using assms(2) by (simp add: a SpatialHash_remove_frame(1) [OF r])
  show "objects sh' object' = objects sh object'"
    using assms(2)
    by (simp add: a objects_SpatialHash_add_other SpatialHash_remove_frame(2) [OF r])
qed

lemma SpatialHash_update_hitbox:
  assumes "SpatialHash_update cn sh object x y w h = Inr sh'"
  shows "hitboxes sh' object = Some (x, y, w, h)"
  using assms by (auto simp: SpatialHash_update_def split: sum.splits)

lemma SpatialHash_remove_Inr:
  assumes "reachable sh"
  shows "\<exists>sh'. SpatialHash_remove (Some name) sh object = Inr sh'"
  using SpatialHash_remove_consistent [OF reachable_consistent [OF assms], of object "Some name"]
  by auto

lemma SpatialHash_update_Inr:
  assumes "reachable sh"
  shows "\<exists>sh'. SpatialHash_update (Some name) sh object x y w h = Inr sh'"
  using SpatialHash_remove_Inr [OF assms, of name object]
  by (auto simp: SpatialHash_update_def)

lemma layerOf_update:
  "layerOf (AList.update k l ls) key = (if key = k then l else layerOf ls key)"
  by (simp add: layerOf_def AList.update_conv')

lemma layerOf_delete:
  "layerOf (AList.delete k ls) key = (if key = k then [] else layerOf ls key)"
  by (simp add: layerOf_def AList.delete_conv')

lemma count_list_spliceIndexOf:
  "thing \<in> set l \<Longrightarrow>
   count_list (spliceIndexOf thing l) u =
     (if u = thing then count_list l u - 1 else count_list l u)"
  by (auto simp: spliceIndexOf_def count_list_remove1)

lemma layerOf_removeFromLayer:
  "layerOf (layers (removeFromLayer sc thing)) key' =
     (if key' = (case depthMemory sc thing of None \<Rightarrow> 0 | Some d \<Rightarrow> d)
      then spliceIndexOf thing (layerOf (layers sc) key')
      else layerOf (layers sc) key')"
proof (cases "map_of (layers sc) (case depthMemory sc thing of None \<Rightarrow> 0 | Some d \<Rightarrow> d)")
  case None
  then have "layerOf (layers sc) (case depthMemory sc thing of None \<Rightarrow> 0 | Some d \<Rightarrow> d) = []"
    by (simp add: layerOf_def)
  with None show ?thesis
    by (auto simp: removeFromLayer_def Let_def spliceIndexOf_def)
next
  case (Some l)
  then have "layerOf (layers sc) (case depthMemory sc thing of None \<Rightarrow> 0 | Some d \<Rightarrow> d) = l"
    by (simp add: layerOf_def)
  with Some show ?thesis
    by (auto simp: removeFromLayer_def Let_def layerOf_update)
qed

lemma removeFromLayer_fields [simp]:
  "heap (removeFromLayer sc thing) = heap sc"
  "things (removeFromLayer sc thing) = things sc"
  "spatialHash (removeFromLayer sc thing) = spatialHash sc"
  "depthMemory (removeFromLayer sc thing) = depthMemory sc"
  "namedThings (removeFromLayer sc thing) = namedThings sc"
  by (simp_all add: removeFromLayer_def Let_def split: option.splits)

lemma depthMemory_updateDepth:
  "depthMemory (updateDepth sc thing) = (depthMemory sc)(thing \<mapsto> round (depth (heap sc thing)))"
  by (auto simp: updateDepth_def Let_def)

lemma layerOf_updateDepth:
  "layerOf (layers (updateDepth sc thing)) key =
     (let d = round (depth (heap sc thing));
          base = (\<lambda>k. if depthMemory sc thing = Some k
                       then spliceIndexOf thing (layerOf (layers sc) k)
                       else layerOf (layers sc) k)
      in if depthMemory sc thing = Some d then layerOf (layers sc) key
         else if key = d then base d @ [thing] else base key)"
  by (auto simp: updateDepth_def Let_def layerOf_update layerOf_delete split: option.splits)

lemma layers_updateDepth:
  assumes "\<forall>u key. count_list (layerOf (layers sc) key) u =
        (if depthMemory sc u = Some key then 1 else 0)"
  shows "count_list (layerOf (layers (updateDepth sc thing)) key) u =
        (if depthMemory (updateDepth sc thing) u = Some key then 1 else 0)"
proof (cases "depthMemory sc thing")
  case None
  with assms show ?thesis
    by (simp add: layerOf_updateDepth depthMemory_updateDepth Let_def)
next
  case (Some pd)
  then have "count_list (layerOf (layers sc) pd) thing = 1"
    using assms by simp
  then have "thing \<in> set (layerOf (layers sc) pd)"
    using count_list_pos_iff [of "layerOf (layers sc) pd" thing] by simp
  with assms Some show ?thesis
    by (auto simp: layerOf_updateDepth depthMemory_updateDepth Let_def count_list_spliceIndexOf)
qed

lemma layers_removeFromLayer:
  assumes "\<forall>u key. count_list (layerOf (layers sc) key) u =
        (if depthMemory sc u = Some key then 1 else 0)"
    and "depthMemory sc thing \<noteq> None"
  shows "count_list (layerOf (layers (removeFromLayer sc thing)) key) u =
        (if ((depthMemory sc)(thing := None)) u = Some key then 1 else 0)"
proof -
  from assms(2) obtain d where d: "depthMemory sc thing = Some d"
    by auto
  then have "count_list (layerOf (layers sc) d) thing = 1"
    using assms(1) by simp
  then have "thing \<in> set (layerOf (layers sc) d)"
    using count_list_pos_iff [of "layerOf (layers sc) d" thing] by simp
  with assms(1) d show ?thesis
    by (simp add: layerOf_removeFromLayer count_list_spliceIndexOf)
qed

lemma sceneInvariant_heap [simp]: "sceneInvariant (sc\<lparr>heap := h\<rparr>) = sceneInvariant sc"
  by (simp add: sceneInvariant_def)

lemma sceneInvariant_updateDepth:
  assumes "sceneInvariant sc"
  shows "sceneInvariant (updateDepth sc thing)"
  unfolding sceneInvariant_def
proof (intro conjI ballI allI)
  show "distinct (things (updateDepth sc thing))"
    and "reachable (spatialHash (updateDepth sc thing))"
    and "0 < size_cell (spatialHash (updateDepth sc thing))"
    using assms by (simp_all add: sceneInvariant_def)
next
  fix u assume "u \<in> set (things (updateDepth sc thing))"
  then show "hitboxes (spatialHash (updateDepth sc thing)) u \<noteq> None"
    and "depthMemory (updateDepth sc thing) u \<noteq> None"
    using assms by (simp_all add: sceneInvariant_def depthMemory_updateDepth)
next
  fix u key
  from assms have "\<forall>u key. count_list (layerOf (layers sc) key) u =
        (if depthMemory sc u = Some key then 1 else 0)"
    unfolding sceneInvariant_def by blast
  then show "count_list (layerOf (layers (updateDepth sc thing)) key) u =
        (if depthMemory (updateDepth sc thing) u = Some key then 1 else 0)"
    by (rule layers_updateDepth)
qed

lemma sceneInvariant_spatialHash:
  assumes "sceneInvariant sc" and "reachable sh"
    and "\<forall>u \<in> set (things sc). hitboxes sh u \<noteq> None"
    and "size_cell sh = size_cell (spatialHash sc)"
  shows "sceneInvariant (sc\<lparr>spatialHash := sh\<rparr>)"
  using assms by (simp add: sceneInvariant_def)

lemma distinct_remove_nth:
  assumes "distinct xs" and "i < length xs"
  shows "distinct (take i xs @ drop (Suc i) xs)"
    and "xs ! i \<notin> set (take i xs @ drop (Suc i) xs)"
    and "set (take i xs @ drop (Suc i) xs) = set xs - {xs ! i}"
proof -
  have xs: "xs = take i xs @ xs ! i # drop (Suc i) xs"
    using assms(2) by (rule id_take_nth_drop)
  have d: "distinct (take i xs @ xs ! i # drop (Suc i) xs)"
    using assms(1) xs by simp
  from d show "distinct (take i xs @ drop (Suc i) xs)"
    by auto
  from d show n: "xs ! i \<notin> set (take i xs @ drop (Suc i) xs)"
    by auto
  have "set xs = insert (xs ! i) (set (take i xs @ drop (Suc i) xs))"
    by (subst xs) auto
  with n show "set (take i xs @ drop (Suc i) xs) = set xs - {xs ! i}"
    by auto
qed

lemma dead_branch:
  assumes "sceneInvariant sc" and "i < length (things sc)"
  shows "\<exists>sh. SpatialHash_remove (Some name) (spatialHash (removeFromLayer sc (things sc ! i))) (things sc ! i)
           = Inr sh
     \<and> sceneInvariant
         ((removeFromLayer sc (things sc ! i))
            \<lparr>spatialHash := sh,
             depthMemory := (depthMemory (removeFromLayer sc (things sc ! i)))(things sc ! i := None),
             things := take i (things (removeFromLayer sc (things sc ! i)))
                       @ drop (Suc i) (things (removeFromLayer sc (things sc ! i)))\<rparr>)
     \<and> objects sh (things sc ! i) = None
     \<and> (\<forall>u. u \<noteq> things sc ! i \<longrightarrow>
           hitboxes sh u = hitboxes (spatialHash sc) u \<and> objects sh u = objects (spatialHash sc) u)"
proof -
  let ?t = "things sc ! i"
  let ?sc2 = "removeFromLayer sc ?t"
  have inv: "distinct (things sc)" "reachable (spatialHash sc)"
    "\<forall>thing \<in> set (things sc).
        hitboxes (spatialHash sc) thing \<noteq> None \<and> depthMemory sc thing \<noteq> None"
    "\<forall>thing key. count_list (layerOf (layers sc) key) thing =
        (if depthMemory sc thing = Some key then 1 else 0)"
    "0 < size_cell (spatialHash sc)"
    using assms(1) unfolding sceneInvariant_def by blast+
  have t: "?t \<in> set (things sc)"
    using assms(2) by simp
  from SpatialHash_remove_Inr [OF inv(2), of name ?t] obtain sh where
    sh: "SpatialHash_remove (Some name) (spatialHash sc) ?t = Inr sh"
    by blast
  have frame: "objects sh ?t = None"
    "\<And>u. u \<noteq> ?t \<Longrightarrow> hitboxes sh u = hitboxes (spatialHash sc) u"
    "\<And>u. u \<noteq> ?t \<Longrightarrow> objects sh u = objects (spatialHash sc) u"
    by (simp_all add: SpatialHash_remove_frame [OF sh])
  let ?sc3 = "?sc2\<lparr>spatialHash := sh, depthMemory := (depthMemory ?sc2)(?t := None),
      things := take i (things ?sc2) @ drop (Suc i) (things ?sc2)\<rparr>"
  have "sceneInvariant ?sc3"
    unfolding sceneInvariant_def
  proof (intro conjI ballI allI)
    show "distinct (things ?sc3)"
      using distinct_remove_nth(1) [OF inv(1) assms(2)] by simp
    show "reachable (spatialHash ?sc3)"
      using reachable_remove [OF inv(2) sh] by simp
    show "0 < size_cell (spatialHash ?sc3)"
      using inv(5) SpatialHash_remove_size [OF sh] by simp
  next
    fix u assume "u \<in> set (things ?sc3)"
    then have u: "u \<in> set (things sc)" "u \<noteq> ?t"
      using distinct_remove_nth(3) [OF inv(1) assms(2)] by auto
    with inv(3) frame(2) show "hitboxes (spatialHash ?sc3) u \<noteq> None"
      and "depthMemory ?sc3 u \<noteq> None"
      by simp_all
  next
    fix u key
    have "depthMemory sc ?t \<noteq> None"
      using inv(3) t by blast
    from layers_removeFromLayer [OF inv(4) this, of key u]
    show "count_list (layerOf (layers ?sc3) key) u =
        (if depthMemory ?sc3 u = Some key then 1 else 0)"
      by simp
  qed
  with sh frame show ?thesis
    by simp
qed

lemma updateThings_pass:
  assumes "sceneInvariant sc"
  shows "\<exists>sc'. updateThings hk i sc = Inr sc' \<and> sceneInvariant sc'
     \<and> set (things sc') \<subseteq> set (things sc)
     \<and> take i (things sc') = take i (things sc)
     \<and> (\<forall>u. u \<notin> set (drop i (things sc)) \<longrightarrow>
           hitboxes (spatialHash sc') u = hitboxes (spatialHash sc) u \<and>
           objects (spatialHash sc') u = objects (spatialHash sc) u \<and>
           depthMemory sc' u = depthMemory sc u)
     \<and> (i < length (things sc) \<longrightarrow>
          (if isDead (heap (if \<not> isDead (heap sc (things sc ! i)) \<and>
                               \<not> isPaused (heap sc (things sc ! i))
                            then sc\<lparr>heap := onUpdate hk (things sc ! i) sc\<rparr> else sc)
                       (things sc ! i))
           then things sc ! i \<notin> set (things sc') \<and>
                objects (spatialHash sc') (things sc ! i) = None \<and>
                depthMemory sc' (things sc ! i) = None
           else things sc ! i \<in> set (things sc')))"
  using assms
proof (induction "length (things sc) - i" arbitrary: i sc rule: less_induct)
  case less
  show ?case
  proof (cases "i < length (things sc)")
    case False
    then have "updateThings hk i sc = Inr sc"
      by (simp add: updateThings_unfold)
    with less.prems False show ?thesis
      by simp
  next
    case True
    define t where "t = things sc ! i"
    define sc1 where "sc1 =
        (if \<not> isDead (heap sc t) \<and> \<not> isPaused (heap sc t)
         then sc\<lparr>heap := onUpdate hk t sc\<rparr> else sc)"
    have sc1: "things sc1 = things sc" "spatialHash sc1 = spatialHash sc"
      "depthMemory sc1 = depthMemory sc" "sceneInvariant sc1"
      using less.prems by (simp_all add: sc1_def)
    have drop_i: "drop i (things sc) = t # drop (Suc i) (things sc)"
      using True by (simp add: t_def Cons_nth_drop_Suc)
    have t_in: "t \<in> set (drop i (things sc))"
      by (simp add: drop_i)
    show ?thesis
    proof (cases "isDead (heap sc1 t)")
      case dead: True
      define sc1d where "sc1d = sc1\<lparr>heap := onDeath hk t sc1\<rparr>"
      have sc1d: "things sc1d = things sc" "spatialHash sc1d = spatialHash sc"
        "depthMemory sc1d = depthMemory sc" "sceneInvariant sc1d"
        using sc1 by (simp_all add: sc1d_def)
      have ti: "things sc1d ! i = t" and len: "i < length (things sc1d)"
        using True by (simp_all add: sc1d t_def)
      define sc2 where "sc2 = removeFromLayer sc1d t"
      from dead_branch [OF sc1d(4) len] obtain sh where
        sh: "SpatialHash_remove (Some (className hk t)) (spatialHash sc2) t = Inr sh"
        and fr: "objects sh t = None"
          "\<And>u. u \<noteq> t \<Longrightarrow> hitboxes sh u = hitboxes (spatialHash sc) u"
          "\<And>u. u \<noteq> t \<Longrightarrow> objects sh u = objects (spatialHash sc) u"
        and inv3: "sceneInvariant (sc2\<lparr>spatialHash := sh,
               depthMemory := (depthMemory sc2)(t := None),
               things := take i (things sc2) @ drop (Suc i) (things sc2)\<rparr>)"
        unfolding ti sc2_def sc1d(2) by blast
      define sc3 where "sc3 = sc2\<lparr>spatialHash := sh,
               depthMemory := (depthMemory sc2)(t := None),
               things := take i (things sc2) @ drop (Suc i) (things sc2)\<rparr>"
      have sc3: "things sc3 = take i (things sc) @ drop (Suc i) (things sc)"
        "spatialHash sc3 = sh" "depthMemory sc3 = (depthMemory sc)(t := None)"
        by (simp_all add: sc3_def sc2_def sc1d)
      have step: "updateThings hk i sc = updateThings hk i sc3"
        using True dead sh
        by (subst updateThings_unfold)
          (simp add: Let_def t_def [symmetric] sc1_def [symmetric] sc1d_def [symmetric]
            sc2_def [symmetric] sc3_def [symmetric])
      have meas: "length (things sc3) - i < length (things sc) - i"
        using True by (simp add: sc3)
      from less.hyps [OF meas] inv3 obtain sc' where
        r: "updateThings hk i sc3 = Inr sc'" "sceneInvariant sc'"
          "set (things sc') \<subseteq> set (things sc3)"
          "take i (things sc') = take i (things sc3)"
          "\<And>u. u \<notin> set (drop i (things sc3)) \<Longrightarrow>
             hitboxes (spatialHash sc') u = hitboxes (spatialHash sc3) u \<and>
             objects (spatialHash sc') u = objects (spatialHash sc3) u \<and>
             depthMemory sc' u = depthMemory sc3 u"
        unfolding sc3_def [symmetric] by blast
      have dist: "distinct (things sc)"
        using less.prems by (simp add: sceneInvariant_def)
      have t_out: "t \<notin> set (things sc3)"
        using distinct_remove_nth(2) [OF dist True] by (simp add: sc3 t_def)
      have sub3: "set (things sc3) \<subseteq> set (things sc)"
        using distinct_remove_nth(3) [OF dist True] by (auto simp: sc3)
      have drop3: "drop i (things sc3) = drop (Suc i) (things sc)"
        using True by (simp add: sc3)
      have take3: "take i (things sc3) = take i (things sc)"
        using True by (simp add: sc3)
      have t_out': "t \<notin> set (drop i (things sc3))"
        using t_out in_set_dropD [of t i "things sc3"] by blast
      have frame: "hitboxes (spatialHash sc') u = hitboxes (spatialHash sc) u \<and>
          objects (spatialHash sc') u = objects (spatialHash sc) u \<and>
          depthMemory sc' u = depthMemory sc u" if "u \<notin> set (drop i (things sc))" for u
      proof -
        have "u \<noteq> t"
          using that t_in by blast
        moreover have "u \<notin> set (drop i (things sc3))"
          using that unfolding drop3 by (simp add: drop_i)
        ultimately show ?thesis
          using r(5) [of u] fr(2,3) by (simp add: sc3)
      qed
      have gone: "t \<notin> set (things sc')" "objects (spatialHash sc') t = None"
        "depthMemory sc' t = None"
        using r(3) t_out r(5) [OF t_out'] fr(1) by (auto simp: sc3)
      have f1: "updateThings hk i sc = Inr sc'"
        using step r(1) by simp
      have f3: "set (things sc') \<subseteq> set (things sc)"
        using r(3) sub3 by blast
      have f4: "take i (things sc') = take i (things sc)"
        using r(4) take3 by simp
      have f5: "\<forall>u. u \<notin> set (drop i (things sc)) \<longrightarrow>
           hitboxes (spatialHash sc') u = hitboxes (spatialHash sc) u \<and>
           objects (spatialHash sc') u = objects (spatialHash sc) u \<and>
           depthMemory sc' u = depthMemory sc u"
        using frame by blast
      have f6: "i < length (things sc) \<longrightarrow>
          (if isDead (heap (if \<not> isDead (heap sc (things sc ! i)) \<and>
                               \<not> isPaused (heap sc (things sc ! i))
                            then sc\<lparr>heap := onUpdate hk (things sc ! i) sc\<rparr> else sc)
                       (things sc ! i))
           then things sc ! i \<notin> set (things sc') \<and>
                objects (spatialHash sc') (things sc ! i) = None \<and>
                depthMemory sc' (things sc ! i) = None
           else things sc ! i \<in> set (things sc'))"
        using dead [unfolded sc1_def t_def] gone [unfolded t_def] by simp
      show ?thesis
        by (rule exI [of _ sc']) (intro f1 r(2) f3 f4 f5 f6 conjI)
    next
      case alive: False
      define sc2 where "sc2 = (if depthChanged sc1 t then updateDepth sc1 t else sc1)"
      have sc2: "things sc2 = things sc" "spatialHash sc2 = spatialHash sc"
        "sceneInvariant sc2" "\<And>u. u \<noteq> t \<Longrightarrow> depthMemory sc2 u = depthMemory sc u"
        using sc1 by (simp_all add: sc2_def sceneInvariant_updateDepth depthMemory_updateDepth)
      have t_set: "t \<in> set (things sc)"
        using True by (simp add: t_def)
      have inv2: "reachable (spatialHash sc)"
        "\<forall>u \<in> set (things sc). hitboxes (spatialHash sc) u \<noteq> None"
        using less.prems unfolding sceneInvariant_def by blast+
      then obtain xLast yLast wLast hLast where
        hb: "getHitbox (spatialHash sc2) t = Some (xLast, yLast, wLast, hLast)"
        using t_set by (cases "hitboxes (spatialHash sc) t") (auto simp: getHitbox_def sc2)
      obtain x y w h where xywh: "thingXywh (heap sc2 t) = (x, y, w, h)"
        by (cases "thingXywh (heap sc2 t)")
      from SpatialHash_update_Inr [OF inv2(1), of "className hk t" t x y w h] obtain shu where
        shu: "SpatialHash_update (Some (className hk t)) (spatialHash sc2) t x y w h = Inr shu"
        by (auto simp: sc2)
      define sc4 where "sc4 =
          (if xLast \<noteq> px (position (heap sc2 t)) + aabb_at (aabb (heap sc2 t)) 0 \<or>
              yLast \<noteq> py (position (heap sc2 t)) + aabb_at (aabb (heap sc2 t)) 1
           then sc2\<lparr>spatialHash := shu\<rparr> else sc2)"
      have step: "updateThings hk i sc = updateThings hk (i + 1) sc4"
        using True alive hb xywh shu unfolding sc4_def sc2_def sc1_def t_def
        by (subst updateThings_unfold) (simp add: Let_def)
      have shu_frame: "\<And>u. u \<noteq> t \<Longrightarrow> hitboxes shu u = hitboxes (spatialHash sc) u"
        "\<And>u. u \<noteq> t \<Longrightarrow> objects shu u = objects (spatialHash sc) u"
        "hitboxes shu t = Some (x, y, w, h)"
        using SpatialHash_update_frame [OF shu] SpatialHash_update_hitbox [OF shu]
        by (simp_all add: sc2)
      have "reachable shu"
        using reachable_update [OF inv2(1)] shu by (simp add: sc2)
      moreover have "\<forall>u \<in> set (things sc2). hitboxes shu u \<noteq> None"
      proof
        fix u assume "u \<in> set (things sc2)"
        then show "hitboxes shu u \<noteq> None"
          using inv2(2) shu_frame(1) [of u] shu_frame(3) by (cases "u = t") (simp_all add: sc2(1))
      qed
      moreover have "size_cell shu = size_cell (spatialHash sc2)"
        using SpatialHash_update_size [OF shu] .
      ultimately have "sceneInvariant (sc2\<lparr>spatialHash := shu\<rparr>)"
        using sc2(3) by (intro sceneInvariant_spatialHash)
      then have inv4: "sceneInvariant sc4"
        using sc2(3) by (simp add: sc4_def)
      have sc4: "things sc4 = things sc"
        "\<And>u. u \<noteq> t \<Longrightarrow> hitboxes (spatialHash sc4) u = hitboxes (spatialHash sc) u"
        "\<And>u. u \<noteq> t \<Longrightarrow> objects (spatialHash sc4) u = objects (spatialHash sc) u"
        "\<And>u. u \<noteq> t \<Longrightarrow> depthMemory sc4 u = depthMemory sc u"
        using shu_frame sc2 by (simp_all add: sc4_def)
      have meas: "length (things sc4) - (i + 1) < length (things sc) - i"
        using True by (simp add: sc4)
      from less.hyps [OF meas] inv4 obtain sc' where
        r: "updateThings hk (i + 1) sc4 = Inr sc'" "sceneInvariant sc'"
          "set (things sc') \<subseteq> set (things sc4)"
          "take (i + 1) (things sc') = take (i + 1) (things sc4)"
          "\<And>u. u \<notin> set (drop (i + 1) (things sc4)) \<Longrightarrow>
             hitboxes (spatialHash sc') u = hitboxes (spatialHash sc4) u \<and>
             objects (spatialHash sc') u = objects (spatialHash sc4) u \<and>
             depthMemory sc' u = depthMemory sc4 u"
        by blast
      have tk: "take i (things sc') = take i (things sc)"
      proof -
        have "take i (things sc') = take i (take (i + 1) (things sc'))"
          by (simp add: min_def)
        also have "\<dots> = take i (take (i + 1) (things sc))"
          by (simp only: r(4) sc4(1))
        also have "\<dots> = take i (things sc)"
          by (simp add: min_def)
        finally show ?thesis .
      qed
      have kept: "t \<in> set (things sc')"
      proof -
        have "take (i + 1) (things sc) ! i = t"
          by (simp add: t_def)
        moreover have "i < length (take (i + 1) (things sc))"
          using True by simp
        ultimately have "t \<in> set (take (i + 1) (things sc))"
          using nth_mem [of i "take (i + 1) (things sc)"] by simp
        then have "t \<in> set (take (i + 1) (things sc'))"
          by (simp only: r(4) sc4(1))
        then show ?thesis
          by (rule in_set_takeD)
      qed
      have frame: "hitboxes (spatialHash sc') u = hitboxes (spatialHash sc) u \<and>
          objects (spatialHash sc') u = objects (spatialHash sc) u \<and>
          depthMemory sc' u = depthMemory sc u" if "u \<notin> set (drop i (things sc))" for u
      proof -
        have "u \<noteq> t"
          using that t_in by blast
        moreover have "u \<notin> set (drop (i + 1) (things sc4))"
          using that unfolding sc4(1) by (simp add: drop_i)
        ultimately show ?thesis
          using r(5) [of u] sc4(2,3,4) by simp
      qed
      have f1: "updateThings hk i sc = Inr sc'"
        using step r(1) by simp
      have f3: "set (things sc') \<subseteq> set (things sc)"
        using r(3) by (simp add: sc4(1))
      have f5: "\<forall>u. u \<notin> set (drop i (things sc)) \<longrightarrow>
           hitboxes (spatialHash sc') u = hitboxes (spatialHash sc) u \<and>
           objects (spatialHash sc') u = objects (spatialHash sc) u \<and>
           depthMemory sc' u = depthMemory sc u"
        using frame by blast
      have f6: "i < length (things sc) \<longrightarrow>
          (if isDead (heap (if \<not> isDead (heap sc (things sc ! i)) \<and>
                               \<not> isPaused (heap sc (things sc ! i))
                            then sc\<lparr>heap := onUpdate hk (things sc ! i) sc\<rparr> else sc)
                       (things sc ! i))
           then things sc ! i \<notin> set (things sc') \<and>
                objects (spatialHash sc') (things sc ! i) = None \<and>
                depthMemory sc' (things sc ! i) = None
           else things sc ! i \<in> set (things sc'))"
        using alive [unfolded sc1_def t_def] kept [unfolded t_def] by simp
      show ?thesis
        by (rule exI [of _ sc']) (intro f1 r(2) f3 tk f5 f6 conjI)
    qed
  qed
qed

lemma sceneInvariant_Scene: "sceneInvariant (Scene h)"
  by (simp add: sceneInvariant_def reachable_new layerOf_def)

lemma sceneInvariant_addThing:
  assumes "sceneInvariant sc" and "thing \<notin> set (things sc)"
    and "objects (spatialHash sc) thing = None"
  shows "sceneInvariant (Scene_addThing sc thing)"
proof -
  obtain x y w h where xywh: "thingXywh (heap sc thing) = (x, y, w, h)"
    by (cases "thingXywh (heap sc thing)")
  define sc2 where "sc2 = sc\<lparr>things := things sc @ [thing],
      spatialHash := SpatialHash_add (spatialHash sc) thing x y w h\<rparr>"
  have eq: "Scene_addThing sc thing = updateDepth sc2 thing"
    by (simp add: Scene_addThing_def Let_def xywh sc2_def)
  have inv: "distinct (things sc)" "reachable (spatialHash sc)"
    "\<forall>u \<in> set (things sc).
        hitboxes (spatialHash sc) u \<noteq> None \<and> depthMemory sc u \<noteq> None"
    "\<forall>u key. count_list (layerOf (layers sc) key) u =
        (if depthMemory sc u = Some key then 1 else 0)"
    "0 < size_cell (spatialHash sc)"
    using assms(1) unfolding sceneInvariant_def by blast+
  have l2: "\<forall>u key. count_list (layerOf (layers sc2) key) u =
        (if depthMemory sc2 u = Some key then 1 else 0)"
    using inv(4) by (simp add: sc2_def)
  show ?thesis
    unfolding eq sceneInvariant_def
  proof (intro conjI ballI allI)
    show "distinct (things (updateDepth sc2 thing))"
      using inv(1) assms(2) by (simp add: sc2_def)
    show "reachable (spatialHash (updateDepth sc2 thing))"
      using reachable_add [OF inv(2) assms(3)] by (simp add: sc2_def)
    show "0 < size_cell (spatialHash (updateDepth sc2 thing))"
      using inv(5) by (simp add: sc2_def)
  next
    fix u assume "u \<in> set (things (updateDepth sc2 thing))"
    then have "u = thing \<or> u \<in> set (things sc)"
      by (auto simp: sc2_def)
    then show "hitboxes (spatialHash (updateDepth sc2 thing)) u \<noteq> None"
      and "depthMemory (updateDepth sc2 thing) u \<noteq> None"
      using inv(3) by (auto simp: sc2_def depthMemory_updateDepth)
  next
    fix u key
    show "count_list (layerOf (layers (updateDepth sc2 thing)) key) u =
        (if depthMemory (updateDepth sc2 thing) u = Some key then 1 else 0)"
      using l2 by (rule layers_updateDepth)
  qed
qed

lemma depthMemory_addThing:
  "depthMemory (Scene_addThing sc thing) =
     (depthMemory sc)(thing \<mapsto> round (depth (heap sc thing)))"
  by (simp add: Scene_addThing_def Let_def depthMemory_updateDepth split: prod.splits)

lemma Thing_fields [simp]:
  "depth Thing = 0"
  "position Thing = \<lparr>px = 0, py = 0, pz = None\<rparr>"
  "aabb Thing = Aabb2D (- 32) (- 32) 32 32"
  "\<not> isDead Thing"
  "\<not> isPaused Thing"
  by (simp_all add: Thing_def)

lemma twoThingsScene_facts:
  "sceneInvariant twoThingsScene"
  "things twoThingsScene = [0, 1]"
  "heap twoThingsScene = (\<lambda>_. Thing)"
  "depthMemory twoThingsScene 0 = Some 0"
  "hitboxes (spatialHash twoThingsScene) 0 = Some (- 32, - 32, 64, 64)"
proof -
  let ?s1 = "Scene_addThing (Scene (\<lambda>_. Thing)) 0"
  have i1: "sceneInvariant ?s1"
    by (rule sceneInvariant_addThing [OF sceneInvariant_Scene]) simp_all
  have xy: "thingXywh Thing = (- 32, - 32, 64, 64)"
    by (simp add: thingXywh_def aabbToXywh_def)
  show "sceneInvariant twoThingsScene"
    unfolding twoThingsScene_def
    by (rule sceneInvariant_addThing [OF i1]) (simp_all add: xy objects_SpatialHash_add_other)
  show "things twoThingsScene = [0, 1]"
    by (simp add: twoThingsScene_def)
  show "heap twoThingsScene = (\<lambda>_. Thing)"
    by (simp add: twoThingsScene_def)
  show "depthMemory twoThingsScene 0 = Some 0"
    by (simp add: twoThingsScene_def depthMemory_addThing)
  show "hitboxes (spatialHash twoThingsScene) 0 = Some (- 32, - 32, 64, 64)"
    by (simp add: twoThingsScene_def xy)
qed

lemma untracked_in_no_cell:
  assumes "consistent sh" and "objects sh object = None"
  shows "object \<notin> set (cellObjects sh key)"
proof -
  have "count_list (cellObjects sh key) object = 0"
    using consistentD1 [OF assms(1), of key object] assms(2) by (simp add: objectCells_def)
  then show ?thesis
    using count_list_pos_iff [of "cellObjects sh key" object] by simp
qed

lemma same_cells:
  assumes "consistent sh" and "consistent sh'" and "objects sh' object = objects sh object"
  shows "object \<in> set (cellObjects sh' key) \<longleftrightarrow> object \<in> set (cellObjects sh key)"
proof -
  have "count_list (cellObjects sh' key) object = count_list (cellObjects sh key) object"
    using consistentD1 [OF assms(1), of key object] consistentD1 [OF assms(2), of key object]
      assms(3) by (simp add: objectCells_def)
  then show ?thesis
    using count_list_pos_iff [of "cellObjects sh' key" object]
      count_list_pos_iff [of "cellObjects sh key" object] by simp
qed

lemma layer_membership:
  assumes "sceneInvariant sc"
  shows "thing \<in> set (layerOf (layers sc) key) \<longleftrightarrow> depthMemory sc thing = Some key"
proof -
  have "count_list (layerOf (layers sc) key) thing =
      (if depthMemory sc thing = Some key then 1 else 0)"
    using assms unfolding sceneInvariant_def by blast
  then show ?thesis
    using count_list_pos_iff [of "layerOf (layers sc) key" thing] by (simp split: if_splits)
qed

lemma updateThings_slot:
  assumes "sceneInvariant sc" and "i < length (things sc)"
  shows "\<exists>sc'. updateThings hk i sc = Inr sc'
     \<and> (if isDead (heap (if \<not> isDead (heap sc (things sc ! i)) \<and>
                            \<not> isPaused (heap sc (things sc ! i))
                         then sc\<lparr>heap := onUpdate hk (things sc ! i) sc\<rparr> else sc)
                    (things sc ! i))
         then things sc ! i \<notin> set (things sc') \<and>
              (\<forall>x y w h. things sc ! i \<notin> set (SpatialHash_query (spatialHash sc') x y w h)) \<and>
              (\<forall>key. things sc ! i \<notin> set (layerOf (layers sc') key))
         else things sc ! i \<in> set (things sc'))
     \<and> (\<forall>u \<in> set (take i (things sc)).
           u \<in> set (things sc') \<and>
           (\<forall>key. u \<in> set (cellObjects (spatialHash sc') key)
                    \<longleftrightarrow> u \<in> set (cellObjects (spatialHash sc) key)) \<and>
           (\<forall>key. u \<in> set (layerOf (layers sc') key)
                    \<longleftrightarrow> u \<in> set (layerOf (layers sc) key)))"
proof -
  let ?t = "things sc ! i"
  let ?dead = "isDead (heap (if \<not> isDead (heap sc ?t) \<and> \<not> isPaused (heap sc ?t)
                         then sc\<lparr>heap := onUpdate hk ?t sc\<rparr> else sc) ?t)"
  from updateThings_pass [OF assms(1), of hk i] assms(2) obtain sc' where
    r: "updateThings hk i sc = Inr sc'" "sceneInvariant sc'"
      "take i (things sc') = take i (things sc)"
      "\<And>u. u \<notin> set (drop i (things sc)) \<Longrightarrow>
           hitboxes (spatialHash sc') u = hitboxes (spatialHash sc) u \<and>
           objects (spatialHash sc') u = objects (spatialHash sc) u \<and>
           depthMemory sc' u = depthMemory sc u"
      "if ?dead
       then ?t \<notin> set (things sc') \<and> objects (spatialHash sc') ?t = None \<and>
            depthMemory sc' ?t = None
       else ?t \<in> set (things sc')"
    by blast
  have c: "consistent (spatialHash sc)" and c': "consistent (spatialHash sc')"
    using assms(1) r(2) by (simp_all add: sceneInvariant_def reachable_consistent)
  have slot: "if ?dead
       then ?t \<notin> set (things sc') \<and>
            (\<forall>x y w h. ?t \<notin> set (SpatialHash_query (spatialHash sc') x y w h)) \<and>
            (\<forall>key. ?t \<notin> set (layerOf (layers sc') key))
       else ?t \<in> set (things sc')"
  proof (cases ?dead)
    case True
    with r(5) have g: "?t \<notin> set (things sc')" "objects (spatialHash sc') ?t = None"
      "depthMemory sc' ?t = None"
      by simp_all
    have "?t \<notin> set (SpatialHash_query (spatialHash sc') x y w h)" for x y w h
      using untracked_in_no_cell [OF c' g(2)] by (auto simp: SpatialHash_query_def)
    moreover have "?t \<notin> set (layerOf (layers sc') key)" for key
      by (simp add: layer_membership [OF r(2)] g(3))
    ultimately show ?thesis
      using True g(1) by simp
  next
    case False
    with r(5) show ?thesis by simp
  qed
  have passed: "u \<in> set (things sc') \<and>
           (\<forall>key. u \<in> set (cellObjects (spatialHash sc') key)
                    \<longleftrightarrow> u \<in> set (cellObjects (spatialHash sc) key)) \<and>
           (\<forall>key. u \<in> set (layerOf (layers sc') key)
                    \<longleftrightarrow> u \<in> set (layerOf (layers sc) key))"
    if u: "u \<in> set (take i (things sc))" for u
  proof -
    have "distinct (take i (things sc) @ drop i (things sc))"
      using assms(1) by (simp add: sceneInvariant_def)
    then have "u \<notin> set (drop i (things sc))"
      using u by (simp only: distinct_append) blast
    from r(4) [OF this] have same: "objects (spatialHash sc') u = objects (spatialHash sc) u"
      "depthMemory sc' u = depthMemory sc u"
      by simp_all
    have "u \<in> set (take i (things sc'))"
      using u by (simp only: r(3))
    then have "u \<in> set (things sc')"
      by (rule in_set_takeD)
    then show ?thesis
      using same_cells [OF c c' same(1)]
      by (simp add: layer_membership [OF r(2)] layer_membership [OF assms(1)] same(2))
  qed
  show ?thesis
    by (rule exI [of _ sc']) (use r(1) slot passed in blast)
qed

lemma updateSlot_round:
  assumes "sceneInvariant sc" and "i < length (things sc)"
  shows "\<exists>j sc'. updateSlot hk i sc = Inr (j, sc') \<and> sceneInvariant sc'
     \<and> (if isDead (heap (callUpdate hk sc (things sc ! i)) (things sc ! i))
         then j = i \<and> things sc' = take i (things sc) @ drop (Suc i) (things sc)
         else j = Suc i \<and> things sc' = things sc)"
proof -
  define t where "t = things sc ! i"
  define sc1 where "sc1 = callUpdate hk sc t"
  have sc1: "things sc1 = things sc" "spatialHash sc1 = spatialHash sc"
    "depthMemory sc1 = depthMemory sc" "sceneInvariant sc1"
    using assms(1) by (simp_all add: sc1_def callUpdate_def)
  show ?thesis
  proof (cases "isDead (heap sc1 t)")
    case dead: True
    define sc1d where "sc1d = sc1\<lparr>heap := onDeath hk t sc1\<rparr>"
    have sc1d: "things sc1d = things sc" "spatialHash sc1d = spatialHash sc"
      "depthMemory sc1d = depthMemory sc" "sceneInvariant sc1d"
      using sc1 by (simp_all add: sc1d_def)
    have ti: "things sc1d ! i = t" and len: "i < length (things sc1d)"
      using assms(2) by (simp_all add: sc1d t_def)
    define sc2 where "sc2 = removeFromLayer sc1d t"
    from dead_branch [OF sc1d(4) len] obtain sh where
      sh: "SpatialHash_remove (Some (className hk t)) (spatialHash sc2) t = Inr sh"
      and inv3: "sceneInvariant (sc2\<lparr>spatialHash := sh,
             depthMemory := (depthMemory sc2)(t := None),
             things := take i (things sc2) @ drop (Suc i) (things sc2)\<rparr>)"
      unfolding ti sc2_def sc1d(2) by blast
    define sc3 where "sc3 = sc2\<lparr>spatialHash := sh,
             depthMemory := (depthMemory sc2)(t := None),
             things := take i (things sc2) @ drop (Suc i) (things sc2)\<rparr>"
    have sc3: "things sc3 = take i (things sc) @ drop (Suc i) (things sc)"
      by (simp add: sc3_def sc2_def sc1d)
    have step: "updateSlot hk i sc = Inr (i, sc3)"
      using dead sh
      by (simp add: updateSlot_def Let_def t_def [symmetric] sc1_def [symmetric]
          sc1d_def [symmetric] sc2_def [symmetric] sc3_def [symmetric])
    have inv3': "sceneInvariant sc3"
      using inv3 by (simp only: sc3_def)
    show ?thesis
      using step inv3' sc3 dead by (simp add: sc1_def t_def)
  next
    case alive: False
    define sc2 where "sc2 = (if depthChanged sc1 t then updateDepth sc1 t else sc1)"
    have sc2: "things sc2 = things sc" "spatialHash sc2 = spatialHash sc"
      "sceneInvariant sc2"
      using sc1 by (simp_all add: sc2_def sceneInvariant_updateDepth)
    have t_set: "t \<in> set (things sc)"
      using assms(2) by (simp add: t_def)
    have inv2: "reachable (spatialHash sc)"
      "\<forall>u \<in> set (things sc). hitboxes (spatialHash sc) u \<noteq> None"
      using assms(1) unfolding sceneInvariant_def by blast+
    then obtain xLast yLast wLast hLast where
      hb: "getHitbox (spatialHash sc2) t = Some (xLast, yLast, wLast, hLast)"
      using t_set by (cases "hitboxes (spatialHash sc) t") (auto simp: getHitbox_def sc2)
    obtain x y w h where xywh: "thingXywh (heap sc2 t) = (x, y, w, h)"
      by (cases "thingXywh (heap sc2 t)")
    from SpatialHash_update_Inr [OF inv2(1), of "className hk t" t x y w h] obtain shu where
      shu: "SpatialHash_update (Some (className hk t)) (spatialHash sc2) t x y w h = Inr shu"
      by (auto simp: sc2)
    define sc4 where "sc4 =
        (if xLast \<noteq> px (position (heap sc2 t)) + aabb_at (aabb (heap sc2 t)) 0 \<or>
            yLast \<noteq> py (position (heap sc2 t)) + aabb_at (aabb (heap sc2 t)) 1
         then sc2\<lparr>spatialHash := shu\<rparr> else sc2)"
    have step: "updateSlot hk i sc = Inr (Suc i, sc4)"
      using alive hb xywh shu unfolding sc4_def sc2_def sc1_def t_def
      by (simp add: updateSlot_def Let_def)
    have shu_frame: "\<And>u. u \<noteq> t \<Longrightarrow> hitboxes shu u = hitboxes (spatialHash sc) u"
      "hitboxes shu t = Some (x, y, w, h)"
      using SpatialHash_update_frame(1) [OF shu] SpatialHash_update_hitbox [OF shu]
      by (simp_all add: sc2)
    have "reachable shu"
      using reachable_update [OF inv2(1)] shu by (simp add: sc2)
    moreover have "\<forall>u \<in> set (things sc2). hitboxes shu u \<noteq> None"
    proof
      fix u assume "u \<in> set (things sc2)"
      then show "hitboxes shu u \<noteq> None"
        using inv2(2) shu_frame(1) [of u] shu_frame(2) by (cases "u = t") (simp_all add: sc2(1))
    qed
    moreover have "size_cell shu = size_cell (spatialHash sc2)"
      using SpatialHash_update_size [OF shu] .
    ultimately have "sceneInvariant (sc2\<lparr>spatialHash := shu\<rparr>)"
      using sc2(3) by (intro sceneInvariant_spatialHash)
    then have inv4: "sceneInvariant sc4"
      using sc2(3) by (simp add: sc4_def)
    have sc4: "things sc4 = things sc"
      using sc2 by (simp add: sc4_def)
    show ?thesis
      using step inv4 sc4 alive by (simp add: sc1_def t_def)
  qed
qed

lemma updateSlot_heap_dead:
  assumes "updateSlot hk i sc = Inr (j, sc')"
    and "isDead (heap (callUpdate hk sc (things sc ! i)) (things sc ! i))"
  shows "heap sc' = onDeath hk (things sc ! i) (callUpdate hk sc (things sc ! i))"
  using assms by (auto simp: updateSlot_def Let_def split: sum.splits)

lemma updateThings_round:
  assumes "i < length (things sc)" and "updateSlot hk i sc = Inr (j, sc')"
  shows "updateThings hk i sc = updateThings hk j sc'"
  using assms by (subst updateThings.simps) simp

lemma loopRounds_state:
  assumes "sceneInvariant sc" and "k \<le> length (things sc)"
  shows "\<exists>i s. loopRounds hk k sc = Inr (i, s) \<and> sceneInvariant s
     \<and> i \<le> length (things s)
     \<and> drop i (things s) = drop k (things sc)
     \<and> updateThings hk i s = updateThings hk 0 sc"
  using assms(2)
proof (induction k)
  case 0
  show ?case
    using assms(1) by simp
next
  case (Suc k)
  then have "k \<le> length (things sc)" and k: "k < length (things sc)"
    by simp_all
  from Suc.IH [OF this(1)] obtain i s where
    r: "loopRounds hk k sc = Inr (i, s)" "sceneInvariant s"
      "drop i (things s) = drop k (things sc)"
      "updateThings hk i s = updateThings hk 0 sc"
    by blast
  have "drop k (things sc) \<noteq> []"
    using k by simp
  then have i: "i < length (things s)"
    using r(3) by (cases "i < length (things s)") simp_all
  from updateSlot_round [OF r(2) i, of hk] obtain j s' where
    u: "updateSlot hk i s = Inr (j, s')" "sceneInvariant s'"
      "(j = i \<and> things s' = take i (things s) @ drop (Suc i) (things s))
       \<or> (j = Suc i \<and> things s' = things s)"
    by (auto split: if_splits)
  have "drop j (things s') = drop (Suc i) (things s)"
    using u(3) i by auto
  also have "\<dots> = drop (Suc k) (things sc)"
  proof -
    have "drop (Suc i) (things s) = tl (drop i (things s))"
      by (simp add: drop_Suc tl_drop)
    also have "\<dots> = tl (drop k (things sc))"
      by (simp only: r(3))
    also have "\<dots> = drop (Suc k) (things sc)"
      by (simp add: drop_Suc tl_drop)
    finally show ?thesis .
  qed
  finally have d: "drop j (things s') = drop (Suc k) (things sc)" .
  have "loopRounds hk (Suc k) sc = Inr (j, s')"
    using r(1) i u(1) by simp
  moreover have "updateThings hk j s' = updateThings hk 0 sc"
    using updateThings_round [OF i u(1)] r(4) by simp
  moreover have "j \<le> length (things s')"
    using u(3) i by auto
  ultimately show ?case
    using u(2) d by blast
qed

lemma scene_pass:
  assumes "sceneInvariant sc"
  shows "\<exists>s. loopRounds hk (length (things sc)) sc = Inr (length (things s), s)
     \<and> updateThings hk 0 sc = Inr s \<and> sceneInvariant s"
proof -
  from loopRounds_state [OF assms, of "length (things sc)" hk] obtain i s where
    r: "loopRounds hk (length (things sc)) sc = Inr (i, s)" "sceneInvariant s"
      "i \<le> length (things s)" "drop i (things s) = drop (length (things sc)) (things sc)"
      "updateThings hk i s = updateThings hk 0 sc"
    by blast
  from r(4) have "length (things s) \<le> i"
    by simp
  with r(3) have i: "i = length (things s)"
    by simp
  then have "updateThings hk i s = Inr s"
    by (subst updateThings.simps) simp
  with r(1,2,5) i show ?thesis
    by auto
qed

lemma scene_round:
  assumes "sceneInvariant sc" and "k < length (things sc)" and "updateThings hk 0 sc = Inr s"
  shows "\<exists>i sk. loopRounds hk k sc = Inr (i, sk) \<and> i < length (things sk)
     \<and> things sk ! i = things sc ! k
     \<and> take i (things s) = take i (things sk)
     \<and> (if isDead (heap (callUpdate hk sk (things sc ! k)) (things sc ! k))
         then things sc ! k \<notin> set (things s) \<and>
              (\<forall>x y w h. things sc ! k \<notin> set (SpatialHash_query (spatialHash s) x y w h)) \<and>
              (\<forall>key. things sc ! k \<notin> set (layerOf (layers s) key))
         else things sc ! k \<in> set (things s))"
proof -
  from assms(2) have "k \<le> length (things sc)"
    by simp
  from loopRounds_state [OF assms(1) this, of hk] obtain i sk where
    r: "loopRounds hk k sc = Inr (i, sk)" "sceneInvariant sk"
      "drop i (things sk) = drop k (things sc)"
      "updateThings hk i sk = updateThings hk 0 sc"
    by blast
  have ne: "drop k (things sc) \<noteq> []"
    using assms(2) by simp
  then have i: "i < length (things sk)"
    using r(3) by (cases "i < length (things sk)") simp_all
  have "things sk ! i = hd (drop i (things sk))"
    using i by (simp add: hd_drop_conv_nth)
  also have "\<dots> = hd (drop k (things sc))"
    by (simp only: r(3))
  also have "\<dots> = things sc ! k"
    using assms(2) by (simp add: hd_drop_conv_nth)
  finally have t: "things sk ! i = things sc ! k" .
  from updateThings_pass [OF r(2), of hk i] obtain s' where
    p: "updateThings hk i sk = Inr s'" "take i (things s') = take i (things sk)"
    by blast
  from updateThings_slot [OF r(2) i, of hk] obtain s'' where
    q: "updateThings hk i sk = Inr s''"
      "if isDead (heap (callUpdate hk sk (things sk ! i)) (things sk ! i))
       then things sk ! i \<notin> set (things s'') \<and>
            (\<forall>x y w h. things sk ! i \<notin> set (SpatialHash_query (spatialHash s'') x y w h)) \<and>
            (\<forall>key. things sk ! i \<notin> set (layerOf (layers s'') key))
       else things sk ! i \<in> set (things s'')"
    unfolding callUpdate_def by blast
  have "s' = s" "s'' = s"
    using p(1) q(1) r(4) assms(3) by simp_all
  with p(2) q(2) r(1) i t show ?thesis
    by auto
qed

lemma killerHooks_simps [simp]:
  "onUpdate killerHooks 0 sc = heap sc"
  "onUpdate killerHooks (Suc 0) sc = (\<lambda>u. (heap sc u)\<lparr>isDead := True\<rparr>)"
  "onDeath killerHooks thing sc = heap sc"
  by (simp_all add: killerHooks_def)

section \<open>Timers\<close>

lemma map_of_foldl_tickTimer:
  assumes "distinct (map fst es)"
  shows "map_of (timers (fst (foldl tickTimer (t, calls) es))) name =
     (case map_of es name of
        None \<Rightarrow> map_of (timers t) name
      | Some v \<Rightarrow> if time v - 1 \<le> 0 then None else Some (v\<lparr>time := time v - 1\<rparr>))"
  using assms
proof (induction es arbitrary: t calls)
  case Nil
  then show ?case by simp
next
  case (Cons e es)
  obtain n v where e: "e = (n, v)" by (cases e)
  obtain t1 calls1 where step: "tickTimer (t, calls) (n, v) = (t1, calls1)"
    by (cases "tickTimer (t, calls) (n, v)")
  have t1: "map_of (timers t1) =
      (if time v - 1 \<le> 0 then (map_of (timers t))(n := None)
       else (map_of (timers t))(n \<mapsto> v\<lparr>time := time v - 1\<rparr>))"
    using step
    by (auto simp: tickTimer_def Let_def AList.update_conv' AList.delete_conv' split: if_splits)
  have notin: "map_of es n = None"
    using Cons.prems e by (simp add: map_of_eq_None_iff)
  have "distinct (map fst es)"
    using Cons.prems by simp
  from Cons.IH [OF this, of t1 calls1] show ?case
    using notin by (auto simp: e step t1 split: option.splits)
qed

lemma distinct_foldl_tickTimer:
  "distinct (map fst (timers t)) \<Longrightarrow>
   distinct (map fst (timers (fst (foldl tickTimer (t, calls) es))))"
proof (induction es arbitrary: t calls)
  case Nil
  then show ?case by simp
next
  case (Cons e es)
  obtain n v where e: "e = (n, v)" by (cases e)
  obtain t1 calls1 where step: "tickTimer (t, calls) (n, v) = (t1, calls1)"
    by (cases "tickTimer (t, calls) (n, v)")
  have "distinct (map fst (timers t1))"
    using step Cons.prems
    by (auto simp: tickTimer_def Let_def AList.distinct_update AList.distinct_delete
        split: if_splits)
  from Cons.IH [OF this, of calls1] show ?case
    by (simp add: e step)
qed

lemma set_Object_entries: "set (Object_entries es) = set es"
  by (auto simp: Object_entries_def)

lemma distinct_Object_entries:
  assumes "distinct (map fst es)"
  shows "distinct (map fst (Object_entries es))"
proof -
  from assms have d: "distinct es" and i: "inj_on fst (set es)"
    by (simp_all add: distinct_map)
  have "distinct (Object_entries es)"
    using d by (auto simp: Object_entries_def)
  with i show ?thesis
    by (simp add: distinct_map set_Object_entries)
qed

lemma map_of_Object_entries:
  assumes "distinct (map fst es)"
  shows "map_of (Object_entries es) = map_of es"
proof (rule ext)
  fix name
  show "map_of (Object_entries es) name = map_of es name"
  proof (cases "map_of es name")
    case None
    then have "name \<notin> fst ` set (Object_entries es)"
      by (simp add: map_of_eq_None_iff set_Object_entries)
    then have "map_of (Object_entries es) name = None"
      by (rule map_of_eq_None_iff [THEN iffD2])
    then show ?thesis
      using None by simp
  next
    case (Some v)
    then have "(name, v) \<in> set (Object_entries es)"
      by (simp add: set_Object_entries map_of_SomeD)
    with distinct_Object_entries [OF assms] show ?thesis
      using Some by simp
  qed
qed

lemma timersPrototype_foldl_tickTimer:
  "timersPrototype (fst (foldl tickTimer (t, calls) es)) = timersPrototype t"
proof (induction es arbitrary: t calls)
  case Nil
  then show ?case by simp
next
  case (Cons e es)
  obtain n v where e: "e = (n, v)" by (cases e)
  obtain t1 calls1 where step: "tickTimer (t, calls) (n, v) = (t1, calls1)"
    by (cases "tickTimer (t, calls) (n, v)")
  then have "timersPrototype t1 = timersPrototype t"
    by (auto simp: tickTimer_def Let_def split: if_splits)
  with Cons.IH [of t1 calls1] show ?case
    by (simp add: e step)
qed

lemma map_of_updateTimers:
  assumes "distinct (map fst (timers t))"
  shows "map_of (timers (fst (updateTimers t))) name =
     (case map_of (timers t) name of
        None \<Rightarrow> None
      | Some v \<Rightarrow> if time v - 1 \<le> 0 then None else Some (v\<lparr>time := time v - 1\<rparr>))"
  unfolding updateTimers_def
  by (simp add: map_of_foldl_tickTimer [OF distinct_Object_entries [OF assms]]
      map_of_Object_entries [OF assms] split: option.splits)

lemma distinct_updateTimers:
  "distinct (map fst (timers t)) \<Longrightarrow> distinct (map fst (timers (fst (updateTimers t))))"
  unfolding updateTimers_def by (rule distinct_foldl_tickTimer)

lemma timersPrototype_updateTimers:
  "timersPrototype (fst (updateTimers t)) = timersPrototype t"
  unfolding updateTimers_def by (rule timersPrototype_foldl_tickTimer)

lemma timer_after_ticks:
  assumes "distinct (map fst (timers t))" and "real k < d" and "name \<noteq> ''__proto__''"
  shows "distinct (map fst (timers (((\<lambda>t. fst (updateTimers t)) ^^ k) (setTimer t d act name))))
     \<and> map_of (timers (((\<lambda>t. fst (updateTimers t)) ^^ k) (setTimer t d act name))) name
         = Some \<lparr>time = d - real k, start = d, action = act\<rparr>"
  using assms(2)
proof (induction k)
  case 0
  show ?case
    using assms(1,3)
    by (simp add: setTimer_def Let_def AList.update_conv' AList.distinct_update)
next
  case (Suc k)
  then have "real k < d" by simp
  from Suc.IH [OF this] Suc.prems show ?case
    by (simp add: map_of_updateTimers distinct_updateTimers algebra_simps)
qed

text \<open>
  C7. \<open>getTimerFrames\<close> returns \<open>start - time\<close>: for a timer set with duration \<open>d\<close> under
  a name other than \<open>__proto__\<close> and ticked \<open>k < d\<close> times the timer is still active and
  the result is the number \<open>k\<close> of elapsed ticks, in line with \<open>getTimer\<close>, which returns
  the elapsed fraction. It is not the remaining count \<open>d - k\<close>. The keys of the table are
  distinct, as those of an object are.
\<close>

theorem getTimerFrames_counts_elapsed_ticks:
  assumes "distinct (map fst (timers t))" and "real k < d" and "name \<noteq> ''__proto__''"
  shows "isTimerActive (((\<lambda>t. fst (updateTimers t)) ^^ k) (setTimer t d act name)) name
     \<and> getTimerFrames (((\<lambda>t. fst (updateTimers t)) ^^ k) (setTimer t d act name)) name
         = Num (real k)"
  using timer_after_ticks [OF assms, of act]
  by (simp add: isTimerActive_def timersHas_def getTimerFrames_def timersGet_def)

text \<open>After one tick of a timer of duration 3 the result is 1, and 2 frames remain.\<close>

theorem getTimerFrames_remaining_counterexample:
  "getTimerFrames (fst (updateTimers (setTimer Thing 3 None ''t''))) ''t'' = Num 1
   \<and> Num 1 \<noteq> Num (3 - 1)"
  by (simp add: getTimerFrames_def timersGet_def updateTimers_def setTimer_def Thing_def
      tickTimer_def Object_entries_def isArrayIndex_def)

theorem getTimerFrames_witness:
  "isTimerActive (fst (updateTimers (fst (updateTimers (setTimer Thing 3 None ''t''))))) ''t''
   \<and> getTimerFrames (fst (updateTimers (fst (updateTimers (setTimer Thing 3 None ''t''))))) ''t''
       = Num 2"
proof -
  have d: "distinct (map fst (timers Thing))"
    by (simp add: Thing_def)
  have k: "real 2 < 3"
    by simp
  have n: "''t'' \<noteq> ''__proto__''"
    by simp
  from getTimerFrames_counts_elapsed_ticks [OF d k n, of None] show ?thesis
    by (simp add: numeral_2_eq_2)
qed

text \<open>
  A timer set under the name \<open>__proto__\<close> is no entry of the table: it is never ticked,
  and \<open>getTimerFrames\<close> reads it through the prototype and returns 0 after any number of
  ticks.
\<close>

lemma getTimerFrames_proto:
  assumes "map_of (timers t) ''__proto__'' = None" and "distinct (map fst (timers t))"
  shows "getTimerFrames (((\<lambda>t. fst (updateTimers t)) ^^ k) (setTimer t d act ''__proto__''))
      ''__proto__'' = Num 0"
proof -
  have "timersPrototype (((\<lambda>t. fst (updateTimers t)) ^^ k) (setTimer t d act ''__proto__''))
        = Some \<lparr>time = d, start = d, action = act\<rparr>
      \<and> map_of (timers (((\<lambda>t. fst (updateTimers t)) ^^ k) (setTimer t d act ''__proto__'')))
          ''__proto__'' = None
      \<and> distinct (map fst (timers (((\<lambda>t. fst (updateTimers t)) ^^ k)
          (setTimer t d act ''__proto__''))))"
  proof (induction k)
    case 0
    show ?case
      using assms by (simp add: setTimer_def)
  next
    case (Suc k)
    then show ?case
      by (simp add: timersPrototype_updateTimers map_of_updateTimers distinct_updateTimers)
  qed
  then show ?thesis
    by (simp add: getTimerFrames_def timersGet_def)
qed

section \<open>Resolution of a move against an adjacent solid\<close>

text \<open>
  C1. A mover with a four-element box whose right edge is the left edge of a solid,
  overlap-enabled, living blocker that the spatial hash holds with its current rectangle;
  the vertical extents of the two meet, and their widths add up to at least the step of
  1. Then \<open>move(5, 0)\<close> returns after the first step: the displacement in x is less than 5,
  \<open>velocity[0]\<close> is 0 and \<open>contactDirections.right\<close> is set. The mover is put at
  \<open>Math.round(x) - 0.0001\<close>, where \<open>x\<close> is its starting coordinate, so its box ends up
  clear of the blocker's exactly when \<open>Math.round(x) - x < 0.0001\<close>, as for an integer \<open>x\<close>.
\<close>

theorem move_blocked_by_adjacent_solid:
  assumes "b \<noteq> m"
    and "aabb (heap sc m) = Aabb2D a0 a1 a2 a3" and "a0 \<le> a2" and "a1 \<le> a3"
    and "aabb2D (aabb (heap sc b)) = Aabb2D b0 b1 b2 b3" and "b0 \<le> b2" and "b1 \<le> b3"
    and "isSolid (heap sc b)" and "isOverlapEnabled (heap sc b)" and "\<not> isDead (heap sc b)"
    and "reachable (spatialHash sc)" and "0 < size_cell (spatialHash sc)"
    and "hitboxes (spatialHash sc) b = Some (thingXywh (heap sc b))"
    and "px (position (heap sc m)) + a2 = px (position (heap sc b)) + b0"
    and "rangesMeet (py (position (heap sc m)) + a1) (py (position (heap sc m)) + a3)
           (py (position (heap sc b)) + b1) (py (position (heap sc b)) + b3)"
    and "1 \<le> (a2 - a0) + (b2 - b0)"
  shows "\<exists>sc'. Thing_move sc m 5 0 1 = Some sc'
     \<and> px (position (heap sc' m)) - px (position (heap sc m)) < 5
     \<and> fst (velocity (heap sc' m)) = 0
     \<and> right (contactDirections (heap sc' m))
     \<and> ((\<not> checkAabbIntersection (aabb (heap sc' m)) (aabb (heap sc' b))
             (position (heap sc' m)) (position (heap sc' b)))
          = (real_of_int (round (px (position (heap sc m)))) - px (position (heap sc m))
               < 1 / 10000))"
proof -
  let ?M = "heap sc m" and ?B = "heap sc b"
  define M1 where "M1 = blockedX (clearContactDirections ?M) 5"
  have res: "Thing_move sc m 5 0 1 = Some (setThing sc m M1)"
    unfolding M1_def by (rule move_blocked_result [OF assms])
  have M1_pos: "px (position M1) = real_of_int (round (px (position ?M))) - 1 / 10000"
    and M1_y: "py (position M1) = py (position ?M)"
    and M1_vel: "fst (velocity M1) = 0"
    and M1_right: "right (contactDirections M1)"
    and M1_box: "aabb M1 = Aabb2D a0 a1 a2 a3"
    by (simp_all add: M1_def blockedX_right_fields assms(2))
  have near: "real_of_int (round (px (position ?M))) - px (position ?M) \<le> 1 / 2"
    using of_int_round_le [of "px (position ?M)"] by simp
  then have disp: "px (position M1) - px (position ?M) < 5"
    by (simp add: M1_pos)
  have apart: "(\<not> checkAabbIntersection (aabb M1) (aabb ?B) (position M1) (position ?B))
      = (real_of_int (round (px (position ?M))) - px (position ?M) < 1 / 10000)"
    unfolding M1_box checkAabbIntersection_2D_mover [OF assms(5)]
    using assms(14,15,16) near by (auto simp: M1_pos M1_y rangesMeet_def)
  show ?thesis
    using res disp M1_vel M1_right apart assms(1) by simp
qed

theorem move_blocked_witness:
  "\<exists>sc'. Thing_move (adjacentScene 0) 0 5 0 1 = Some sc'
     \<and> px (position (heap sc' 0)) - px (position (heap (adjacentScene 0) 0)) < 5
     \<and> fst (velocity (heap sc' 0)) = 0
     \<and> right (contactDirections (heap sc' 0))
     \<and> \<not> checkAabbIntersection (aabb (heap sc' 0)) (aabb (heap sc' 1))
           (position (heap sc' 0)) (position (heap sc' 1))"
proof -
  have "\<exists>sc'. Thing_move (adjacentScene 0) 0 5 0 1 = Some sc'
     \<and> px (position (heap sc' 0)) - px (position (heap (adjacentScene 0) 0)) < 5
     \<and> fst (velocity (heap sc' 0)) = 0
     \<and> right (contactDirections (heap sc' 0))
     \<and> ((\<not> checkAabbIntersection (aabb (heap sc' 0)) (aabb (heap sc' 1))
             (position (heap sc' 0)) (position (heap sc' 1)))
          = (real_of_int (round (px (position (heap (adjacentScene 0) 0))))
               - px (position (heap (adjacentScene 0) 0)) < 1 / 10000))"
    by (rule move_blocked_by_adjacent_solid [where ?a0.0 = "- 8" and ?a1.0 = "- 8"
          and ?a2.0 = 8 and ?a3.0 = 8 and ?b0.0 = "- 8" and ?b1.0 = "- 8" and ?b2.0 = 8
          and ?b3.0 = 8])
      (simp_all add: adjacentScene_facts Thing_def rangesMeet_def thingXywh_def aabbToXywh_def)
  then show ?thesis
    by (simp add: adjacentScene_facts Thing_def)
qed

text \<open>
  With the mover at \<open>x = 0.5\<close> and the blocker's left edge at \<open>8.5\<close> the mover is put at
  \<open>0.9999\<close>: its right edge \<open>8.9999\<close> lies inside the blocker.
\<close>

theorem move_blocked_overlap_counterexample:
  "isSolid (heap (adjacentScene (1 / 2)) 1)
   \<and> boxesTouch (aabb (heap (adjacentScene (1 / 2)) 0)) (aabb (heap (adjacentScene (1 / 2)) 1))
        (position (heap (adjacentScene (1 / 2)) 0)) (position (heap (adjacentScene (1 / 2)) 1))
   \<and> (case Thing_move (adjacentScene (1 / 2)) 0 5 0 1 of
        None \<Rightarrow> False
      | Some sc' \<Rightarrow>
          checkAabbIntersection (aabb (heap sc' 0)) (aabb (heap sc' 1))
            (position (heap sc' 0)) (position (heap sc' 1)))"
proof -
  have "Thing_move (adjacentScene (1 / 2)) 0 5 0 1 =
     Some (setThing (adjacentScene (1 / 2)) 0
        (blockedX (clearContactDirections (heap (adjacentScene (1 / 2)) 0)) 5))"
    by (rule move_blocked_result [where ?a0.0 = "- 8" and ?a1.0 = "- 8" and ?a2.0 = 8
        and ?a3.0 = 8 and ?b0.0 = "- 8" and ?b1.0 = "- 8" and ?b2.0 = 8 and ?b3.0 = 8 and b = 1])
      (simp_all add: adjacentScene_facts Thing_def rangesMeet_def thingXywh_def aabbToXywh_def)
  then show ?thesis
    by (simp add: adjacentScene_facts Thing_def boxesTouch_def rangesMeet_def rangesAbut_def
        blockedX_right_fields checkAabbIntersection_2D_mover [where ?b0.0 = "- 8" and ?b1.0 = "- 8"
          and ?b2.0 = 8 and ?b3.0 = 8] Let_def round_one_half)
qed

section \<open>A move by zero\<close>

text \<open>
  C5. \<open>move(0, 0)\<close> enters neither loop: position and velocity of the thing are what
  they were, the other things and the spatial hash are untouched. The four contact
  flags are cleared at the start of every \<open>move\<close>, so they are all false afterwards,
  whatever they were before.
\<close>

theorem move_zero_keeps_position_and_velocity:
  "\<exists>sc'. Thing_move sc this 0 0 stepSize = Some sc'
     \<and> position (heap sc' this) = position (heap sc this)
     \<and> velocity (heap sc' this) = velocity (heap sc this)
     \<and> contactDirections (heap sc' this)
         = \<lparr>left = False, right = False, up = False, down = False\<rparr>
     \<and> heap sc' = (heap sc)(this := heap sc' this)
     \<and> spatialHash sc' = spatialHash sc"
  by (simp add: Thing_move_def sweepX_zero sweepY_zero clearContactDirections_def)

text \<open>A thing whose flag \<open>right\<close> is set has it cleared by \<open>move(0, 0)\<close>.\<close>

theorem move_zero_counterexample:
  "right (contactDirections (heap contactScene 0))
   \<and> (case Thing_move contactScene 0 0 0 1 of
        None \<Rightarrow> False
      | Some sc' \<Rightarrow> \<not> right (contactDirections (heap sc' 0)))"
  by (simp add: Thing_move_def sweepX_zero sweepY_zero clearContactDirections_def
      contactScene_def)

theorem move_zero_witness:
  "\<exists>sc'. Thing_move contactScene 0 0 0 1 = Some sc'
     \<and> position (heap sc' 0) = position (heap contactScene 0)
     \<and> velocity (heap sc' 0) = velocity (heap contactScene 0)
     \<and> contactDirections (heap sc' 0)
         = \<lparr>left = False, right = False, up = False, down = False\<rparr>"
  using move_zero_keeps_position_and_velocity [of contactScene 0 1] by blast

section \<open>Touching boxes overlap\<close>




section \<open>The bound on catching up\<close>

text \<open>
  C3. One callback whose elapsed time is worth 10 steps, with update speed 1 and no
  impact frames, drains at most 5 steps, whatever happens during the steps. The
  accumulator afterwards lies in \<open>[0, 1)\<close> when it was at least \<open>-10\<close> before and no call
  of \<open>updateHandler\<close> of the callback resets it. A reset (canvas resize, focus regained,
  scene change) sets it to 0.99 inside the loop, the loop subtracts 1, and the remainder
  of a negative number is negative.
\<close>

theorem catch_up_bound:
  assumes "previousFrameTime g = Some t0" and "(frameTime - t0) / 1000 * 60 = 10"
    and "updateSpeed g = 1" and "impactFrameCount g \<le> 0"
  shows "updateHandlerCalls (frame env focusAtDraw frameTime g) - updateHandlerCalls g \<le> 5
     \<and> (- 10 \<le> accumulator g \<and> noAccumulatorReset env g \<longrightarrow>
          0 \<le> accumulator (frame env focusAtDraw frameTime g) \<and>
          accumulator (frame env focusAtDraw frameTime g) < 1)"
proof -
  define g2 where "g2 = g\<lparr>previousFrameTime := Some frameTime,
      startGameTime :=
        (case startGameTime g of
           None \<Rightarrow> Some frameTime
         | Some s \<Rightarrow> if s = 0 then Some frameTime else Some s),
      accumulator := accumulator g + 10\<rparr>"
  obtain g3 n rerender where d: "drain env frameTime g2 0 False = (g3, n, rerender)"
    by (cases "drain env frameTime g2 0 False")
  have delta: "(10::real) = (case previousFrameTime g of None \<Rightarrow> 0
      | Some p \<Rightarrow> (frameTime - p) / 1000) * 60 * updateSpeed g"
    using assms(1-3) by simp
  have d': "drain env frameTime
      (if impactFrameCount g > 0
       then g\<lparr>previousFrameTime := Some frameTime,
              startGameTime :=
                (case startGameTime g of
                   None \<Rightarrow> Some frameTime
                 | Some s \<Rightarrow> if s = 0 then Some frameTime else Some s),
              impactFrameCount := impactFrameCount g - 10\<rparr>
       else g\<lparr>previousFrameTime := Some frameTime,
              startGameTime :=
                (case startGameTime g of
                   None \<Rightarrow> Some frameTime
                 | Some s \<Rightarrow> if s = 0 then Some frameTime else Some s),
              accumulator := accumulator g + 10\<rparr>) 0 False = (g3, n, rerender)"
    using d assms(4) by (simp add: g2_def)
  note f = frame_unfold [OF d' delta, of focusAtDraw]
  from drain_counts [OF d]
  have calls: "n \<le> 5" "updateHandlerCalls g3 = updateHandlerCalls g + n"
    by (simp_all add: g2_def)
  have bound: "updateHandlerCalls (frame env focusAtDraw frameTime g) - updateHandlerCalls g \<le> 5"
    using calls by (simp add: f(1))
  have range: "0 \<le> accumulator (frame env focusAtDraw frameTime g) \<and>
      accumulator (frame env focusAtDraw frameTime g) < 1"
    if low: "- 10 \<le> accumulator g" and quiet: "noAccumulatorReset env g"
  proof -
    have "0 \<le> accumulator g2"
      using low by (simp add: g2_def)
    moreover have "\<forall>k. 0 \<le> k \<and> k < 5 \<longrightarrow>
        \<not> sizeChanged (env k) \<and> \<not> scenePending (env k) \<and>
        (hasFocus (env k) \<longrightarrow> (if k = 0 then isFocused g2 else hasFocus (env (k - 1))))"
    proof (intro allI impI)
      fix k :: nat
      assume "0 \<le> k \<and> k < 5"
      then have "k < 5" by simp
      with quiet have "\<not> sizeChanged (env k) \<and> \<not> scenePending (env k) \<and>
          (hasFocus (env k) \<longrightarrow> (if k = 0 then isFocused g else hasFocus (env (k - 1))))"
        unfolding noAccumulatorReset_def by blast
      then show "\<not> sizeChanged (env k) \<and> \<not> scenePending (env k) \<and>
          (hasFocus (env k) \<longrightarrow> (if k = 0 then isFocused g2 else hasFocus (env (k - 1))))"
        by (cases "k = 0") (simp_all add: g2_def)
    qed
    ultimately have "0 \<le> accumulator g3"
      by (rule drain_accumulator_nonneg [OF d])
    from jsRemainder_one_nonneg [OF this] show ?thesis
      by (simp add: f(2))
  qed
  from bound range show ?thesis
    by blast
qed

text \<open>
  In a focused window in which nothing happens the bound holds and the accumulator ends
  in \<open>[0, 1)\<close>. With a scene change pending at the first step the bound of 5 steps
  holds as well.
\<close>

theorem catch_up_bound_witness:
  "updateHandlerCalls (frame steadyEnv True (500 / 3) runningGame)
      - updateHandlerCalls runningGame \<le> 5
   \<and> 0 \<le> accumulator (frame steadyEnv True (500 / 3) runningGame)
   \<and> accumulator (frame steadyEnv True (500 / 3) runningGame) < 1
   \<and> updateHandlerCalls (frame sceneChangeEnv True (500 / 3) runningGame)
      - updateHandlerCalls runningGame \<le> 5"
proof -
  have quiet: "- 10 \<le> accumulator runningGame \<and> noAccumulatorReset steadyEnv runningGame"
    by (simp add: noAccumulatorReset_def steadyEnv_def)
  have a: "previousFrameTime runningGame = Some 0" "(500 / 3 - 0) / 1000 * 60 = (10::real)"
    "updateSpeed runningGame = 1" "impactFrameCount runningGame \<le> 0"
    by simp_all
  from catch_up_bound [OF a, of steadyEnv True] catch_up_bound [OF a, of sceneChangeEnv True] quiet
  show ?thesis
    by blast
qed

text \<open>
  With a scene change pending at the first step the accumulator goes from 10.99 to
  0.99 and then to \<open>-0.01\<close>, where the loop ends.
\<close>

theorem catch_up_negative_accumulator_counterexample:
  "previousFrameTime runningGame = Some 0 \<and> (500 / 3 - 0) / 1000 * 60 = (10::real)
   \<and> updateSpeed runningGame = 1 \<and> impactFrameCount runningGame = 0
   \<and> accumulator (frame sceneChangeEnv True (500 / 3) runningGame) < 0"
  by (simp add: frame_def runningGame_def initialGame_def sceneChangeEnv_def Let_def
      updateHandler_def handleCanvasResize_def handleTabbingInAndOut_def
      handleSceneChange_def game_update_def game_draw_def jsRemainder_def
      ceiling_neg_hundredth)

section \<open>Rendering\<close>

text \<open>
  C6. In one callback \<open>Scene.draw\<close> runs at most once. It runs exactly when some drained
  step ran with the window focused (only then \<open>updateHandler\<close> reports an update) or the
  framerate is uncapped, and the window has focus in the rendering branch and a scene
  exists. The raw mouse delta is reset whenever the rendering branch is entered, whether
  or not the scene was drawn. A step drained without focus alone does not render.
\<close>

theorem render_only_after_focused_step:
  "(let g' = frame env focusAtDraw frameTime g;
        n = updateHandlerCalls g' - updateHandlerCalls g;
        rerender = (\<exists>k<n. hasFocus (env k))
    in n \<le> 5
       \<and> sceneDraws g' = sceneDraws g +
            (if (rerender \<or> isFramerateUncapped g) \<and> focusAtDraw \<and> sceneExists g' then 1 else 0)
       \<and> (rerender \<or> isFramerateUncapped g \<longrightarrow> rawDelta (mouse g') = (0, 0)))"
proof -
  define delta where "delta = (case previousFrameTime g of None \<Rightarrow> 0
      | Some p \<Rightarrow> (frameTime - p) / 1000) * 60 * updateSpeed g"
  define g2 where "g2 =
      (if impactFrameCount g > 0
       then g\<lparr>previousFrameTime := Some frameTime,
              startGameTime :=
                (case startGameTime g of
                   None \<Rightarrow> Some frameTime
                 | Some s \<Rightarrow> if s = 0 then Some frameTime else Some s),
              impactFrameCount := impactFrameCount g - delta\<rparr>
       else g\<lparr>previousFrameTime := Some frameTime,
              startGameTime :=
                (case startGameTime g of
                   None \<Rightarrow> Some frameTime
                 | Some s \<Rightarrow> if s = 0 then Some frameTime else Some s),
              accumulator := accumulator g + delta\<rparr>)"
  obtain g3 n rerender where d: "drain env frameTime g2 0 False = (g3, n, rerender)"
    by (cases "drain env frameTime g2 0 False")
  note f = frame_unfold [OF d [unfolded g2_def] delta_def, of focusAtDraw]
  have g2: "updateHandlerCalls g2 = updateHandlerCalls g"
    "isFramerateUncapped g2 = isFramerateUncapped g" "sceneDraws g2 = sceneDraws g"
    by (simp_all add: g2_def)
  from drain_counts [OF d]
  have c: "n \<le> 5" "updateHandlerCalls g3 = updateHandlerCalls g + n"
    "rerender \<longleftrightarrow> (\<exists>k<n. hasFocus (env k))"
    "isFramerateUncapped g3 = isFramerateUncapped g" "sceneDraws g3 = sceneDraws g"
    by (simp_all add: g2)
  show ?thesis
    unfolding Let_def f(1) f(3) f(4) c(2) c(4) c(5)
    using c(1) c(3) f(5) c(4) by simp
qed

theorem render_witness:
  "updateHandlerCalls (frame steadyEnv True (50 / 3) runningGame) = 1
   \<and> sceneDraws (frame steadyEnv True (50 / 3) runningGame) = 1
   \<and> rawDelta (mouse (frame steadyEnv True (50 / 3) runningGame)) = (0, 0)"
proof -
  have calls: "updateHandlerCalls (frame steadyEnv True (50 / 3) runningGame) = 1"
    and ex: "sceneExists (frame steadyEnv True (50 / 3) runningGame)"
    by (simp_all add: frame_def runningGame_def initialGame_def steadyEnv_def Let_def
      updateHandler_def handleCanvasResize_def handleTabbingInAndOut_def
      handleSceneChange_def game_update_def game_draw_def)
  have foc: "\<exists>k<Suc 0. hasFocus (steadyEnv k)"
    by (simp add: steadyEnv_def)
  from render_only_after_focused_step [of steadyEnv True "50 / 3" runningGame]
  show ?thesis
    using foc by (simp add: Let_def calls ex)
qed

text \<open>
  A callback in a window without focus drains one step and draws nothing.
\<close>

theorem render_skipped_without_focus_counterexample:
  "updateHandlerCalls (frame unfocusedEnv False (50 / 3) runningGame)
      - updateHandlerCalls runningGame = 1
   \<and> sceneDraws (frame unfocusedEnv False (50 / 3) runningGame) = sceneDraws runningGame"
  by (simp add: frame_def runningGame_def initialGame_def unfocusedEnv_def Let_def
      updateHandler_def handleCanvasResize_def handleTabbingInAndOut_def
      handleSceneChange_def game_update_def game_draw_def loseFocus_def)

section \<open>Removal of dead things\<close>

text \<open>
  C4. \<open>Scene.update\<close> on a scene in its kept state returns. Its loop makes one round for
  every thing of the list, in the order of the list: round \<open>k\<close> visits the thing that was
  at index \<open>k\<close> when the step began, wherever the removals before it have moved it, and
  the loop ends after these rounds. A thing that is dead at its visit, after its own
  \<open>update\<close> if that was called, is removed in this round: at the end of the step it is
  not in \<open>things\<close>, no query of the spatial hash returns it and no layer holds it. A
  thing that is not dead at its visit is kept, whatever the later rounds do to its flag:
  at the end of the step it is in \<open>things\<close>, the spatial hash has its hitbox and a layer
  holds it; the things before the index of a round stay where they are. So a thing that
  dies in its own \<open>update\<close>, or before its visit, is removed in the step of its death,
  and a thing killed after its visit is still there at the end of that step; the next
  step, which starts in the kept state again, removes it if it is still dead at its
  visit then.
\<close>

theorem dead_thing_removed_at_its_visit:
  assumes "sceneInvariant sc"
  shows "\<exists>s sc'. loopRounds hk (length (things sc)) sc = Inr (length (things s), s)
     \<and> Scene_update hk sc = Inr sc'
     \<and> sc' = s\<lparr>namedThings :=
                 filter (\<lambda>(name, thing). \<not> isDead (heap s thing)) (namedThings s)\<rparr>
     \<and> sceneInvariant sc'
     \<and> (\<forall>k < length (things sc). \<exists>i sk.
           loopRounds hk k sc = Inr (i, sk) \<and> i < length (things sk)
           \<and> things sk ! i = things sc ! k
           \<and> take i (things sc') = take i (things sk)
           \<and> (if isDead (heap (callUpdate hk sk (things sc ! k)) (things sc ! k))
               then things sc ! k \<notin> set (things sc') \<and>
                    (\<forall>x y w h. things sc ! k
                        \<notin> set (SpatialHash_query (spatialHash sc') x y w h)) \<and>
                    (\<forall>key. things sc ! k \<notin> set (layerOf (layers sc') key))
               else things sc ! k \<in> set (things sc') \<and>
                    hitboxes (spatialHash sc') (things sc ! k) \<noteq> None \<and>
                    (\<exists>key. things sc ! k \<in> set (layerOf (layers sc') key))))"
proof -
  from scene_pass [OF assms, of hk] obtain s where
    s: "loopRounds hk (length (things sc)) sc = Inr (length (things s), s)"
      "updateThings hk 0 sc = Inr s" "sceneInvariant s"
    by blast
  define sc' where "sc' = s\<lparr>namedThings :=
      filter (\<lambda>(name, thing). \<not> isDead (heap s thing)) (namedThings s)\<rparr>"
  have upd: "Scene_update hk sc = Inr sc'"
    by (simp add: Scene_update_def s(2) sc'_def)
  have same: "things sc' = things s" "spatialHash sc' = spatialHash s" "layers sc' = layers s"
    "depthMemory sc' = depthMemory s"
    by (simp_all add: sc'_def)
  have inv: "sceneInvariant sc'"
    using s(3) by (simp add: sceneInvariant_def same)
  have kept: "hitboxes (spatialHash s) u \<noteq> None \<and> (\<exists>key. u \<in> set (layerOf (layers s) key))"
    if "u \<in> set (things s)" for u
  proof -
    from s(3) that have "hitboxes (spatialHash s) u \<noteq> None" "depthMemory s u \<noteq> None"
      unfolding sceneInvariant_def by blast+
    then show ?thesis
      by (auto simp: layer_membership [OF s(3)])
  qed
  have rounds: "\<exists>i sk.
      loopRounds hk k sc = Inr (i, sk) \<and> i < length (things sk)
      \<and> things sk ! i = things sc ! k
      \<and> take i (things sc') = take i (things sk)
      \<and> (if isDead (heap (callUpdate hk sk (things sc ! k)) (things sc ! k))
          then things sc ! k \<notin> set (things sc') \<and>
               (\<forall>x y w h. things sc ! k
                   \<notin> set (SpatialHash_query (spatialHash sc') x y w h)) \<and>
               (\<forall>key. things sc ! k \<notin> set (layerOf (layers sc') key))
          else things sc ! k \<in> set (things sc') \<and>
               hitboxes (spatialHash sc') (things sc ! k) \<noteq> None \<and>
               (\<exists>key. things sc ! k \<in> set (layerOf (layers sc') key)))"
    if k: "k < length (things sc)" for k
  proof -
    from scene_round [OF assms k s(2)] obtain i sk where
      r: "loopRounds hk k sc = Inr (i, sk)" "i < length (things sk)"
        "things sk ! i = things sc ! k" "take i (things s) = take i (things sk)"
        "if isDead (heap (callUpdate hk sk (things sc ! k)) (things sc ! k))
         then things sc ! k \<notin> set (things s) \<and>
              (\<forall>x y w h. things sc ! k \<notin> set (SpatialHash_query (spatialHash s) x y w h)) \<and>
              (\<forall>key. things sc ! k \<notin> set (layerOf (layers s) key))
         else things sc ! k \<in> set (things s)"
      by blast
    show ?thesis
    proof (cases "isDead (heap (callUpdate hk sk (things sc ! k)) (things sc ! k))")
      case True
      with r show ?thesis
        unfolding same by auto
    next
      case False
      with r(5) have "things sc ! k \<in> set (things s)"
        by simp
      with kept [OF this] False r(1-4) show ?thesis
        unfolding same by auto
    qed
  qed
  show ?thesis
    using s(1) upd inv rounds unfolding sc'_def by blast
qed

text \<open>
  In the example the first round visits thing 0, which is alive, and the second round
  visits thing 1, whose \<open>update\<close> kills both things: thing 1 is removed in this step and
  thing 0, killed after its visit, is kept, dead. The next step finds thing 0 dead at its
  visit and removes it.
\<close>

theorem dead_thing_removed_witness:
  "\<exists>sc' sc''. Scene_update killerHooks twoThingsScene = Inr sc'
     \<and> 1 \<notin> set (things sc') \<and> 0 \<in> set (things sc') \<and> isDead (heap sc' 0)
     \<and> Scene_update killerHooks sc' = Inr sc'' \<and> 0 \<notin> set (things sc'')"
proof -
  have "twoThingsScene\<lparr>heap := heap twoThingsScene\<rparr> = twoThingsScene"
    by simp
  then have same: "twoThingsScene\<lparr>heap := \<lambda>_. Thing\<rparr> = twoThingsScene"
    by (simp only: twoThingsScene_facts(3))
  have r0: "loopRounds killerHooks 0 twoThingsScene = Inr (0, twoThingsScene)"
    by simp
  have r1: "loopRounds killerHooks (Suc 0) twoThingsScene = Inr (Suc 0, twoThingsScene)"
    by (simp add: updateSlot_def callUpdate_def twoThingsScene_facts(2-5) Let_def
        depthChanged_def getHitbox_def same)
  have r2: "loopRounds killerHooks (Suc (Suc 0)) twoThingsScene
      = updateSlot killerHooks (Suc 0) twoThingsScene"
    by (subst loopRounds.simps(2), subst r1) (simp add: twoThingsScene_facts(2))
  have d0: "\<not> isDead (heap (callUpdate killerHooks twoThingsScene 0) 0)"
    by (simp add: callUpdate_def twoThingsScene_facts(3))
  have d1: "isDead (heap (callUpdate killerHooks twoThingsScene (Suc 0)) (Suc 0))"
    and h1: "isDead (heap (callUpdate killerHooks twoThingsScene (Suc 0)) 0)"
    by (simp_all add: callUpdate_def twoThingsScene_facts(3))
  have len: "0 < length (things twoThingsScene)" "Suc 0 < length (things twoThingsScene)"
    and nth: "things twoThingsScene ! 0 = 0" "things twoThingsScene ! Suc 0 = Suc 0"
    and n: "length (things twoThingsScene) = Suc (Suc 0)"
    by (simp_all add: twoThingsScene_facts(2))
  from dead_thing_removed_at_its_visit [OF twoThingsScene_facts(1), of killerHooks]
  obtain s sc' where
    l: "loopRounds killerHooks (length (things twoThingsScene)) twoThingsScene
          = Inr (length (things s), s)"
    and u: "Scene_update killerHooks twoThingsScene = Inr sc'"
    and eq: "sc' = s\<lparr>namedThings :=
                 filter (\<lambda>(name, thing). \<not> isDead (heap s thing)) (namedThings s)\<rparr>"
    and inv: "sceneInvariant sc'"
    and rounds: "\<forall>k < length (things twoThingsScene). \<exists>i sk.
           loopRounds killerHooks k twoThingsScene = Inr (i, sk) \<and> i < length (things sk)
           \<and> things sk ! i = things twoThingsScene ! k
           \<and> take i (things sc') = take i (things sk)
           \<and> (if isDead (heap (callUpdate killerHooks sk (things twoThingsScene ! k))
                    (things twoThingsScene ! k))
               then things twoThingsScene ! k \<notin> set (things sc') \<and>
                    (\<forall>x y w h. things twoThingsScene ! k
                        \<notin> set (SpatialHash_query (spatialHash sc') x y w h)) \<and>
                    (\<forall>key. things twoThingsScene ! k \<notin> set (layerOf (layers sc') key))
               else things twoThingsScene ! k \<in> set (things sc') \<and>
                    hitboxes (spatialHash sc') (things twoThingsScene ! k) \<noteq> None \<and>
                    (\<exists>key. things twoThingsScene ! k \<in> set (layerOf (layers sc') key)))"
    by blast
  from rounds [rule_format, OF len(1)] obtain i0 sk0 where
    "loopRounds killerHooks 0 twoThingsScene = Inr (i0, sk0)"
    "if isDead (heap (callUpdate killerHooks sk0 0) 0)
     then 0 \<notin> set (things sc') else 0 \<in> set (things sc')"
    unfolding nth by (auto split: if_splits)
  with r0 d0 have kept: "0 \<in> set (things sc')"
    by simp
  from rounds [rule_format, OF len(2)] obtain i1 sk1 where
    v: "loopRounds killerHooks (Suc 0) twoThingsScene = Inr (i1, sk1)"
    "take i1 (things sc') = take i1 (things sk1)"
    "if isDead (heap (callUpdate killerHooks sk1 (Suc 0)) (Suc 0))
     then Suc 0 \<notin> set (things sc') else Suc 0 \<in> set (things sc')"
    unfolding nth by (auto split: if_splits)
  from v(1) r1 have i1: "i1 = Suc 0" and sk1: "sk1 = twoThingsScene"
    by simp_all
  from v(3) d1 have gone: "Suc 0 \<notin> set (things sc')"
    by (simp add: sk1)
  from v(2) have first: "take (Suc 0) (things sc') = [0]"
    by (simp add: i1 sk1 twoThingsScene_facts(2))
  from first have nth': "things sc' ! 0 = 0" and len': "0 < length (things sc')"
    by (cases "things sc'"; simp)+
  have "updateSlot killerHooks (Suc 0) twoThingsScene = Inr (length (things s), s)"
    using l unfolding n r2 .
  from updateSlot_heap_dead [OF this] d1
  have "heap s = heap (callUpdate killerHooks twoThingsScene (Suc 0))"
    by (simp add: twoThingsScene_facts(2))
  with h1 have dead: "isDead (heap sc' 0)"
    by (simp add: eq)
  have d0': "isDead (heap (callUpdate killerHooks sc' 0) 0)"
    using dead by (simp add: callUpdate_def)
  from dead_thing_removed_at_its_visit [OF inv, of killerHooks]
  obtain sc'' where
    u': "Scene_update killerHooks sc' = Inr sc''"
    and rounds': "\<forall>k < length (things sc'). \<exists>i sk.
           loopRounds killerHooks k sc' = Inr (i, sk) \<and> i < length (things sk)
           \<and> things sk ! i = things sc' ! k
           \<and> take i (things sc'') = take i (things sk)
           \<and> (if isDead (heap (callUpdate killerHooks sk (things sc' ! k)) (things sc' ! k))
               then things sc' ! k \<notin> set (things sc'') \<and>
                    (\<forall>x y w h. things sc' ! k
                        \<notin> set (SpatialHash_query (spatialHash sc'') x y w h)) \<and>
                    (\<forall>key. things sc' ! k \<notin> set (layerOf (layers sc'') key))
               else things sc' ! k \<in> set (things sc'') \<and>
                    hitboxes (spatialHash sc'') (things sc' ! k) \<noteq> None \<and>
                    (\<exists>key. things sc' ! k \<in> set (layerOf (layers sc'') key)))"
    by blast
  from rounds' [rule_format, OF len'] obtain j0 sj0 where
    "loopRounds killerHooks 0 sc' = Inr (j0, sj0)"
    "if isDead (heap (callUpdate killerHooks sj0 0) 0)
     then 0 \<notin> set (things sc'') else 0 \<in> set (things sc'')"
    unfolding nth' by (auto split: if_splits)
  with d0' have "0 \<notin> set (things sc'')"
    by simp
  with kept gone dead u u' show ?thesis
    by auto
qed

text \<open>
  Thing 1 is alive and in the scene before the step, dies during the step and is gone
  from \<open>things\<close> at the end of the same step.
\<close>

theorem removal_in_the_same_step_counterexample:
  "\<not> isDead (heap twoThingsScene 1) \<and> 1 \<in> set (things twoThingsScene)
   \<and> (case Scene_update killerHooks twoThingsScene of
        Inl e \<Rightarrow> False
      | Inr sc' \<Rightarrow> 1 \<notin> set (things sc'))"
proof -
  have "twoThingsScene\<lparr>heap := heap twoThingsScene\<rparr> = twoThingsScene"
    by simp
  then have same: "twoThingsScene\<lparr>heap := \<lambda>_. Thing\<rparr> = twoThingsScene"
    by (simp only: twoThingsScene_facts(3))
  have step: "updateThings killerHooks 0 twoThingsScene = updateThings killerHooks 1 twoThingsScene"
    by (subst updateThings_unfold)
      (simp add: twoThingsScene_facts(2-5) Let_def depthChanged_def getHitbox_def same)
  have len: "1 < length (things twoThingsScene)"
    by (simp add: twoThingsScene_facts)
  from updateThings_slot [OF twoThingsScene_facts(1) len, of killerHooks] obtain sc' where
    "updateThings killerHooks 1 twoThingsScene = Inr sc'" "1 \<notin> set (things sc')"
    by (simp add: twoThingsScene_facts(2,3)) blast
  then show ?thesis
    by (simp add: Scene_update_def step twoThingsScene_facts(2,3))
qed

end
